theory Spec2Isabelle
  imports Complex_Main "HOL-Library.Signed_Division"
begin

unbundle bit_operations_syntax

section \<open>The playback pipeline core of ffplay: queues, clocks and A/V synchronisation\<close>

text \<open>
  The definitions follow the player source (the file with \<^verbatim>\<open>program_name = "ffplay"\<close>)
  and \<^verbatim>\<open>libavutil/fifo.c\<close>, function by function and under the names of the source.

  Conventions of the embedding.
  \<^item> A C \<^verbatim>\<open>int\<close> or \<^verbatim>\<open>int64_t\<close> is an \<^typ>\<open>int\<close>. Signed overflow is undefined
    behaviour in C; the model describes the executions in which no counter leaves its
    range. A \<^verbatim>\<open>size_t\<close> is a \<^typ>\<open>nat\<close>.
  \<^item> A C flag (an \<^verbatim>\<open>int\<close> tested for zero) stays an \<^typ>\<open>int\<close> and is tested with
    \<open>\<noteq> 0\<close>, as C does.
  \<^item> Mutation of a struct through a pointer is state passing: the function returns the
    updated struct, together with its C return value where it has one.
  \<^item> A pointer that may be NULL is an \<open>option\<close>.
\<close>

subsection \<open>Values of type double\<close>

text \<open>
  A \<^verbatim>\<open>double\<close> is modelled by its value: either NaN or a real number. Arithmetic
  propagates NaN and every comparison with NaN is false, as in C. Rounding and the two
  infinities are not part of the model: arithmetic on numbers is exact.
\<close>

datatype double = NaN | Dbl real

instantiation double :: "{plus,minus,uminus,times,ord}"
begin

fun uminus_double :: "double \<Rightarrow> double" where
  "uminus_double (Dbl x) = Dbl (- x)"
| "uminus_double NaN = NaN"

fun plus_double :: "double \<Rightarrow> double \<Rightarrow> double" where
  "plus_double (Dbl x) (Dbl y) = Dbl (x + y)"
| "plus_double _ _ = NaN"

fun minus_double :: "double \<Rightarrow> double \<Rightarrow> double" where
  "minus_double (Dbl x) (Dbl y) = Dbl (x - y)"
| "minus_double _ _ = NaN"

fun times_double :: "double \<Rightarrow> double \<Rightarrow> double" where
  "times_double (Dbl x) (Dbl y) = Dbl (x * y)"
| "times_double _ _ = NaN"

fun less_double :: "double \<Rightarrow> double \<Rightarrow> bool" where
  "less_double (Dbl x) (Dbl y) = (x < y)"
| "less_double _ _ = False"

fun less_eq_double :: "double \<Rightarrow> double \<Rightarrow> bool" where
  "less_eq_double (Dbl x) (Dbl y) = (x \<le> y)"
| "less_eq_double _ _ = False"

instance ..

end



text \<open>The conversion of an \<^verbatim>\<open>int\<close> to \<^verbatim>\<open>double\<close>.\<close>

definition int_to_double :: "int \<Rightarrow> double" where
  "int_to_double i = Dbl (real_of_int i)"


text \<open>
  Modelled from the spec: the macros \<^verbatim>\<open>FFMAX\<close> and \<^verbatim>\<open>FFMIN\<close> of libavutil (their header
  is not among the sources), the spec's \<open>max\<close> and \<open>min\<close>, written as the conditional
  expressions \<^verbatim>\<open>((a) > (b) ? (a) : (b))\<close> and \<^verbatim>\<open>((a) > (b) ? (b) : (a))\<close>.
\<close>

definition FFMAX :: "'a::ord \<Rightarrow> 'a \<Rightarrow> 'a" where
  "FFMAX a b = (if a > b then a else b)"

definition FFMIN :: "'a::ord \<Rightarrow> 'a \<Rightarrow> 'a" where
  "FFMIN a b = (if a > b then b else a)"


text \<open>
  Modelled from the spec: a time base is a rational \<^verbatim>\<open>{num, den}\<close> and \<^verbatim>\<open>av_q2d\<close>
  (libavutil, not among the sources) its value as a double, \<^verbatim>\<open>num / (double) den\<close>.
  A zero denominator, which gives an infinity or NaN in C, is read as NaN.
\<close>

record AVRational =
  num :: int
  den :: int

definition av_q2d :: "AVRational \<Rightarrow> double" where
  "av_q2d a = (if den a = 0 then NaN else Dbl (real_of_int (num a) / real_of_int (den a)))"

subsection \<open>Constants of the player\<close>

definition MAX_QUEUE_SIZE :: int where
  "MAX_QUEUE_SIZE = 15 * 1024 * 1024"

definition MIN_FRAMES :: int where
  "MIN_FRAMES = 25"








definition AV_DISPOSITION_ATTACHED_PIC :: int where
  "AV_DISPOSITION_ATTACHED_PIC = 1024"

definition AV_FIFO_FLAG_AUTO_GROW :: nat where
  "AV_FIFO_FLAG_AUTO_GROW = 1"

definition SIZE_MAX :: nat where
  "SIZE_MAX = 2 ^ 64 - 1"

definition EINVAL :: int where
  "EINVAL = 22"

definition ENOMEM :: int where
  "ENOMEM = 12"

definition ENOSPC :: int where
  "ENOSPC = 28"

definition AVERROR :: "int \<Rightarrow> int" where
  "AVERROR e = - e"

subsection \<open>The fifo of libavutil (fifo.c)\<close>

text \<open>
  An \<^verbatim>\<open>AVFifo\<close> is a ring of \<open>nb_elems\<close> cells with a read offset, a write offset and a
  flag that tells the empty ring from the full one. The C buffer is an array of bytes
  addressed in multiples of \<open>elem_size\<close>; the model keeps one list cell per element.

  Allocation is an input of the model: \<open>mem\<close> is \<open>None\<close> when the allocator returns
  NULL, and \<open>Some fresh\<close> when it succeeds, \<open>fresh i\<close> being the (arbitrary) content of the
  i-th new cell.
\<close>

record 'a AVFifo =
  buffer :: "'a list"
  elem_size :: nat
  nb_elems :: nat
  offset_r :: nat
  offset_w :: nat
  is_empty :: int
  flags :: nat
  auto_grow_limit :: nat

definition AUTO_GROW_DEFAULT_BYTES :: nat where
  "AUTO_GROW_DEFAULT_BYTES = 1024 * 1024"

definition av_fifo_alloc2 :: "nat \<Rightarrow> nat \<Rightarrow> nat \<Rightarrow> (nat \<Rightarrow> 'a) option \<Rightarrow> 'a AVFifo option" where
  "av_fifo_alloc2 n esize fl mem =
     (if esize = 0 then None
      else case mem of
        None \<Rightarrow> None
      | Some fresh \<Rightarrow>
          Some \<lparr>buffer = map fresh [0..<n], elem_size = esize, nb_elems = n,
                offset_r = 0, offset_w = 0, is_empty = 1, flags = fl,
                auto_grow_limit = FFMAX (AUTO_GROW_DEFAULT_BYTES div esize) 1\<rparr>)"

definition av_fifo_can_read :: "'a AVFifo \<Rightarrow> nat" where
  "av_fifo_can_read f =
     (if offset_w f \<le> offset_r f \<and> is_empty f = 0
      then nb_elems f - offset_r f + offset_w f
      else offset_w f - offset_r f)"

definition av_fifo_can_write :: "'a AVFifo \<Rightarrow> nat" where
  "av_fifo_can_write f = nb_elems f - av_fifo_can_read f"

text \<open>
  \<^verbatim>\<open>memcpy\<close> and \<^verbatim>\<open>memmove\<close> on cells: \<open>n\<close> cells from index \<open>src\<close> are copied to
  index \<open>dst\<close>; the source is read before the destination is written.
\<close>

definition copy_cells :: "'a list \<Rightarrow> nat \<Rightarrow> nat \<Rightarrow> nat \<Rightarrow> 'a list" where
  "copy_cells buf dst src n = take dst buf @ take n (drop src buf) @ drop (dst + n) buf"

definition av_fifo_grow2 :: "'a AVFifo \<Rightarrow> nat \<Rightarrow> (nat \<Rightarrow> 'a) option \<Rightarrow> int \<times> 'a AVFifo" where
  "av_fifo_grow2 f inc mem =
     (if inc > SIZE_MAX - nb_elems f then (AVERROR EINVAL, f)
      else case mem of
        None \<Rightarrow> (AVERROR ENOMEM, f)
      | Some fresh \<Rightarrow>
          let tmp = buffer f @ map fresh [0..<inc];
              f1 = f\<lparr>buffer := tmp\<rparr>;
              f2 = (if offset_w f1 \<le> offset_r f1 \<and> is_empty f1 = 0 then
                      let copy = FFMIN inc (offset_w f1);
                          tmp1 = copy_cells tmp (nb_elems f1) 0 copy
                      in if copy < offset_w f1
                         then f1\<lparr>buffer := copy_cells tmp1 0 copy (offset_w f1 - copy),
                                 offset_w := offset_w f1 - copy\<rparr>
                         else f1\<lparr>buffer := tmp1,
                                 offset_w := (if copy = inc then 0 else nb_elems f1 + copy)\<rparr>
                    else f1)
          in (0, f2\<lparr>nb_elems := nb_elems f2 + inc\<rparr>))"

definition fifo_check_space :: "'a AVFifo \<Rightarrow> nat \<Rightarrow> (nat \<Rightarrow> 'a) option \<Rightarrow> int \<times> 'a AVFifo" where
  "fifo_check_space f to_write mem =
     (let can_write = av_fifo_can_write f;
          need_grow = (if to_write > can_write then to_write - can_write else 0)
      in if need_grow = 0 then (0, f)
         else
           let can_grow = (if auto_grow_limit f > nb_elems f
                           then auto_grow_limit f - nb_elems f else 0)
           in if (flags f AND AV_FIFO_FLAG_AUTO_GROW) \<noteq> 0 \<and> need_grow \<le> can_grow
              then av_fifo_grow2 f (if need_grow < can_grow div 2 then need_grow * 2 else can_grow) mem
              else (AVERROR ENOSPC, f))"

text \<open>
  The player writes and reads one element at a time, so \<^verbatim>\<open>av_fifo_write\<close> and
  \<^verbatim>\<open>av_fifo_read\<close> are modelled for \<^verbatim>\<open>nb_elems = 1\<close> and without callback. After
  \<^verbatim>\<open>fifo_check_space\<close> has succeeded there is a free cell at the write offset, and where
  a peek finds an element there is one at the read offset; the copy loop of
  \<^verbatim>\<open>fifo_write_common\<close> (of \<^verbatim>\<open>fifo_peek_common\<close>) then runs its body once, with
  \<^verbatim>\<open>len = 1\<close>, and that one round is what the two definitions contain.
\<close>

definition fifo_write_common :: "'a AVFifo \<Rightarrow> 'a \<Rightarrow> (nat \<Rightarrow> 'a) option \<Rightarrow> int \<times> 'a AVFifo" where
  "fifo_write_common f x mem =
     (case fifo_check_space f 1 mem of (ret, f1) \<Rightarrow>
        if ret < 0 then (ret, f1)
        else
          let wbuf = (buffer f1)[offset_w f1 := x];
              offset_w1 = offset_w f1 + 1;
              offset_w2 = (if offset_w1 \<ge> nb_elems f1 then 0 else offset_w1)
          in (ret, f1\<lparr>buffer := wbuf, offset_w := offset_w2, is_empty := 0\<rparr>))"

definition av_fifo_write :: "'a AVFifo \<Rightarrow> 'a \<Rightarrow> (nat \<Rightarrow> 'a) option \<Rightarrow> int \<times> 'a AVFifo" where
  "av_fifo_write f x mem = fifo_write_common f x mem"

text \<open>
  \<^verbatim>\<open>fifo_peek_common\<close> with offset 0: \<open>Inl ret\<close> is a negative return value (nothing is
  copied and the count of elements read is set to 0), \<open>Inr x\<close> is the return value 0 with
  the element \<open>x\<close> copied to the caller's buffer.
\<close>

definition fifo_peek_common :: "'a AVFifo \<Rightarrow> int + 'a" where
  "fifo_peek_common f =
     (let can_read = av_fifo_can_read f
      in if 1 > can_read then Inl (AVERROR EINVAL)
         else
           let offset_r1 = (if offset_r f \<ge> nb_elems f then offset_r f - nb_elems f
                            else offset_r f)
           in Inr (buffer f ! offset_r1))"

text \<open>
  \<^verbatim>\<open>av_fifo_drain2\<close> asserts that the fifo holds at least \<open>sz\<close> elements. Both calls
  from \<^verbatim>\<open>av_fifo_read\<close> meet the assertion: after a failed peek \<open>sz\<close> is 0, after a
  peek that found an element \<open>sz\<close> is 1 and the fifo holds one.
\<close>

definition av_fifo_drain2 :: "'a AVFifo \<Rightarrow> nat \<Rightarrow> 'a AVFifo" where
  "av_fifo_drain2 f sz =
     (let cur_size = av_fifo_can_read f;
          f1 = (if cur_size = sz then f\<lparr>is_empty := 1\<rparr> else f)
      in if offset_r f1 \<ge> nb_elems f1 - sz
         then f1\<lparr>offset_r := offset_r f1 - (nb_elems f1 - sz)\<rparr>
         else f1\<lparr>offset_r := offset_r f1 + sz\<rparr>)"

definition av_fifo_read :: "'a AVFifo \<Rightarrow> (int + 'a) \<times> 'a AVFifo" where
  "av_fifo_read f =
     (case fifo_peek_common f of
        Inl ret \<Rightarrow> (Inl ret, av_fifo_drain2 f 0)
      | Inr x \<Rightarrow> (Inr x, av_fifo_drain2 f 1))"

text \<open>
  The abstraction of a fifo: the elements it holds, oldest first, and the well-formedness
  every fifo built by \<^verbatim>\<open>av_fifo_alloc2\<close> with at least one cell keeps.
\<close>

definition fifo_list :: "'a AVFifo \<Rightarrow> 'a list" where
  "fifo_list f =
     (if is_empty f \<noteq> 0 then []
      else if offset_r f < offset_w f
      then take (offset_w f - offset_r f) (drop (offset_r f) (buffer f))
      else drop (offset_r f) (buffer f) @ take (offset_w f) (buffer f))"

definition fifo_wf :: "'a AVFifo \<Rightarrow> bool" where
  "fifo_wf f \<longleftrightarrow>
     length (buffer f) = nb_elems f \<and> 0 < nb_elems f \<and> nb_elems f \<le> SIZE_MAX \<and>
     offset_r f < nb_elems f \<and> offset_w f < nb_elems f \<and>
     (if is_empty f = 0 then True else is_empty f = 1 \<and> offset_r f = offset_w f)"

subsection \<open>Packets and the packet queue\<close>

text \<open>
  Of an \<^verbatim>\<open>AVPacket\<close> (a struct of libavcodec) the queue reads the byte size and the
  duration and sets the stream index; \<open>data\<close> stands for the payload. The queue stores
  pointers to heap packets it owns alone, which the model stores by value.
\<close>

record AVPacket =
  data :: "nat list"
  size :: int
  duration :: int
  stream_index :: int

record MyAVPacketList =
  pkt :: AVPacket
  serial :: int

text \<open>
  \<^verbatim>\<open>sizeof(MyAVPacketList)\<close>, a pointer and an \<^verbatim>\<open>int\<close>: 16 bytes where pointers have
  64 bits.
\<close>

definition sizeof_MyAVPacketList :: int where
  "sizeof_MyAVPacketList = 16"

text \<open>
  The mutex and the condition variable of a \<^verbatim>\<open>PacketQueue\<close> are not fields of the
  model: the code between \<^verbatim>\<open>SDL_LockMutex\<close> and \<^verbatim>\<open>SDL_UnlockMutex\<close> is one atomic
  step of the queue, a function from the queue to the queue.
\<close>

record PacketQueue =
  pkt_list :: "MyAVPacketList AVFifo"
  nb_packets :: int
  size :: int
  duration :: int
  abort_request :: int
  serial :: int

definition packet_queue_put_private ::
    "PacketQueue \<Rightarrow> AVPacket \<Rightarrow> (nat \<Rightarrow> MyAVPacketList) option \<Rightarrow> int \<times> PacketQueue" where
  "packet_queue_put_private q p mem =
     (if abort_request q \<noteq> 0 then (- 1, q)
      else
        let pkt1 = \<lparr>pkt = p, serial = PacketQueue.serial q\<rparr>
        in case av_fifo_write (pkt_list q) pkt1 mem of (ret, fifo) \<Rightarrow>
             let q1 = q\<lparr>pkt_list := fifo\<rparr>
             in if ret < 0 then (ret, q1)
                else (0, q1\<lparr>nb_packets := nb_packets q1 + 1,
                             PacketQueue.size := PacketQueue.size q1 +
                               (AVPacket.size (pkt pkt1) + sizeof_MyAVPacketList),
                             PacketQueue.duration := PacketQueue.duration q1 +
                               AVPacket.duration (pkt pkt1)\<rparr>))"

text \<open>
  \<open>pkt1_alloc\<close> tells whether \<^verbatim>\<open>av_packet_alloc\<close> returned a packet. The caller's packet
  is moved into the new one, or unreferenced when there is none.
\<close>

definition packet_queue_put ::
    "PacketQueue \<Rightarrow> AVPacket \<Rightarrow> bool \<Rightarrow> (nat \<Rightarrow> MyAVPacketList) option \<Rightarrow> int \<times> PacketQueue" where
  "packet_queue_put q p pkt1_alloc mem =
     (if \<not> pkt1_alloc then (- 1, q) else packet_queue_put_private q p mem)"

definition packet_queue_put_nullpacket ::
    "PacketQueue \<Rightarrow> AVPacket \<Rightarrow> int \<Rightarrow> bool \<Rightarrow> (nat \<Rightarrow> MyAVPacketList) option
     \<Rightarrow> int \<times> PacketQueue" where
  "packet_queue_put_nullpacket q p si pkt1_alloc mem =
     packet_queue_put q (p\<lparr>stream_index := si\<rparr>) pkt1_alloc mem"

text \<open>
  \<^verbatim>\<open>packet_queue_init\<close>: \<open>Inl\<close> is the error return, \<open>Inr\<close> the initialised queue of
  return value 0. \<open>sdl_ok\<close> tells whether the mutex and the condition variable were
  created.
\<close>

definition packet_queue_init :: "(nat \<Rightarrow> MyAVPacketList) option \<Rightarrow> bool \<Rightarrow> int + PacketQueue" where
  "packet_queue_init mem sdl_ok =
     (case av_fifo_alloc2 1 (nat sizeof_MyAVPacketList) AV_FIFO_FLAG_AUTO_GROW mem of
        None \<Rightarrow> Inl (AVERROR ENOMEM)
      | Some fifo \<Rightarrow>
          if \<not> sdl_ok then Inl (AVERROR ENOMEM)
          else Inr \<lparr>pkt_list = fifo, nb_packets = 0, size = 0, duration = 0,
                    abort_request = 1, serial = 0\<rparr>)"

text \<open>
  The loop of \<^verbatim>\<open>packet_queue_flush\<close> reads the fifo until a read fails and frees each
  packet it reads. Its termination rests on the fifo, so the loop is a partial function:
  \<open>None\<close> is a run that never ends.
\<close>

partial_function (option) packet_queue_flush_loop ::
    "MyAVPacketList AVFifo \<Rightarrow> MyAVPacketList AVFifo option" where
  "packet_queue_flush_loop f =
     (case av_fifo_read f of
        (Inr pkt1, f1) \<Rightarrow> packet_queue_flush_loop f1
      | (Inl ret, f1) \<Rightarrow> Some f1)"

definition packet_queue_flush :: "PacketQueue \<Rightarrow> PacketQueue option" where
  "packet_queue_flush q =
     (case packet_queue_flush_loop (pkt_list q) of
        None \<Rightarrow> None
      | Some fifo \<Rightarrow>
          Some (q\<lparr>pkt_list := fifo, nb_packets := 0, PacketQueue.size := 0,
                  PacketQueue.duration := 0, PacketQueue.serial := PacketQueue.serial q + 1\<rparr>))"

definition packet_queue_abort :: "PacketQueue \<Rightarrow> PacketQueue" where
  "packet_queue_abort q = q\<lparr>abort_request := 1\<rparr>"

definition packet_queue_start :: "PacketQueue \<Rightarrow> PacketQueue" where
  "packet_queue_start q =
     q\<lparr>abort_request := 0, PacketQueue.serial := PacketQueue.serial q + 1\<rparr>"

text \<open>
  \<^verbatim>\<open>packet_queue_get\<close>. One round of its loop, under the mutex, either leaves the loop
  with a return value (and, when a packet was read, the packet and the serial stored
  through the two out-pointers) or reaches \<^verbatim>\<open>SDL_CondWait\<close>. The player always passes a
  serial pointer that is not NULL.
\<close>

datatype get_output = GotPacket AVPacket int | NoOutput

definition packet_queue_get_round ::
    "PacketQueue \<Rightarrow> int \<Rightarrow> (int \<times> get_output) option \<times> PacketQueue" where
  "packet_queue_get_round q block =
     (if abort_request q \<noteq> 0 then (Some (- 1, NoOutput), q)
      else case av_fifo_read (pkt_list q) of
        (Inr pkt1, fifo) \<Rightarrow>
          (Some (1, GotPacket (pkt pkt1) (MyAVPacketList.serial pkt1)),
           q\<lparr>pkt_list := fifo,
             nb_packets := nb_packets q - 1,
             PacketQueue.size := PacketQueue.size q -
               (AVPacket.size (pkt pkt1) + sizeof_MyAVPacketList),
             PacketQueue.duration := PacketQueue.duration q - AVPacket.duration (pkt pkt1)\<rparr>)
      | (Inl ret, fifo) \<Rightarrow>
          if block = 0 then (Some (0, NoOutput), q\<lparr>pkt_list := fifo\<rparr>)
          else (None, q\<lparr>pkt_list := fifo\<rparr>))"

text \<open>
  While the caller waits in \<^verbatim>\<open>SDL_CondWait\<close> the mutex is free and the other threads
  change the queue. \<open>env\<close> lists what they do to it during each wait, one function per
  wake-up, in order. The result is \<open>None\<close> when the caller still waits after the last
  of them.
\<close>

fun packet_queue_get ::
    "PacketQueue \<Rightarrow> int \<Rightarrow> (PacketQueue \<Rightarrow> PacketQueue) list
     \<Rightarrow> ((int \<times> get_output) \<times> PacketQueue) option" where
  "packet_queue_get q block [] =
     (case packet_queue_get_round q block of
        (Some r, q1) \<Rightarrow> Some (r, q1)
      | (None, q1) \<Rightarrow> None)"
| "packet_queue_get q block (e # env) =
     (case packet_queue_get_round q block of
        (Some r, q1) \<Rightarrow> Some (r, q1)
      | (None, q1) \<Rightarrow> packet_queue_get (e q1) block env)"

text \<open>The packets a queue holds, oldest first, and the invariant of its counters.\<close>

definition queue_packets :: "PacketQueue \<Rightarrow> MyAVPacketList list" where
  "queue_packets q = fifo_list (pkt_list q)"

definition packet_queue_inv :: "PacketQueue \<Rightarrow> bool" where
  "packet_queue_inv q \<longleftrightarrow>
     fifo_wf (pkt_list q) \<and>
     nb_packets q = int (length (queue_packets q)) \<and>
     PacketQueue.size q =
       sum_list (map (\<lambda>e. AVPacket.size (pkt e) + sizeof_MyAVPacketList) (queue_packets q)) \<and>
     PacketQueue.duration q =
       sum_list (map (\<lambda>e. AVPacket.duration (pkt e)) (queue_packets q))"

text \<open>
  The queues the player can build: \<^verbatim>\<open>packet_queue_init\<close> builds the first, and each
  critical section of the queue functions is one step.
\<close>

inductive packet_queue_reachable :: "PacketQueue \<Rightarrow> bool" where
  init: "packet_queue_init mem sdl_ok = Inr q \<Longrightarrow> packet_queue_reachable q"
| put: "packet_queue_reachable q \<Longrightarrow>
        packet_queue_reachable (snd (packet_queue_put q p pkt1_alloc mem))"
| get: "packet_queue_reachable q \<Longrightarrow>
        packet_queue_reachable (snd (packet_queue_get_round q block))"
| flush: "packet_queue_reachable q \<Longrightarrow> packet_queue_flush q = Some q' \<Longrightarrow>
        packet_queue_reachable q'"
| abort: "packet_queue_reachable q \<Longrightarrow> packet_queue_reachable (packet_queue_abort q)"
| start: "packet_queue_reachable q \<Longrightarrow> packet_queue_reachable (packet_queue_start q)"

subsection \<open>Clocks\<close>

text \<open>
  A clock points to the serial of a packet queue of the player, or, the external
  clock, to its own serial. The pointer is the name of the cell it points to; the cell
  is read from the player state.
\<close>

datatype queue_id = AudioQ | VideoQ | SubtitleQ

datatype serial_ref = QueueSerial queue_id | ExtclkSerial

record Clock =
  pts :: double
  pts_drift :: double
  last_updated :: double
  speed :: double
  serial :: int
  paused :: int
  queue_serial :: serial_ref

text \<open>
  \<open>mem\<close> reads the cell a serial pointer names. \<open>time\<close> is the value
  \<^verbatim>\<open>av_gettime_relative() / 1000000.0\<close> takes at the call; it is evaluated in the running
  branch only.
\<close>

definition get_clock :: "(serial_ref \<Rightarrow> int) \<Rightarrow> Clock \<Rightarrow> double \<Rightarrow> double" where
  "get_clock mem c time =
     (if mem (queue_serial c) \<noteq> Clock.serial c then NaN
      else if paused c \<noteq> 0 then Clock.pts c
      else pts_drift c + time - (time - last_updated c) * (Dbl 1.0 - speed c))"

definition set_clock_at :: "Clock \<Rightarrow> double \<Rightarrow> int \<Rightarrow> double \<Rightarrow> Clock" where
  "set_clock_at c p ser time =
     c\<lparr>Clock.pts := p, last_updated := time, pts_drift := p - time, Clock.serial := ser\<rparr>"

definition set_clock :: "Clock \<Rightarrow> double \<Rightarrow> int \<Rightarrow> double \<Rightarrow> Clock" where
  "set_clock c p ser time = set_clock_at c p ser time"

definition init_clock :: "serial_ref \<Rightarrow> double \<Rightarrow> Clock" where
  "init_clock qs time =
     set_clock \<lparr>pts = Dbl 0, pts_drift = Dbl 0, last_updated = Dbl 0, speed = Dbl 1.0,
                serial = 0, paused = 0, queue_serial = qs\<rparr> NaN (- 1) time"

subsection \<open>Frames and the frame queue\<close>

text \<open>
  Of a \<^verbatim>\<open>Frame\<close>, \<open>frame\<close> is the data its \<^verbatim>\<open>AVFrame\<close> references and \<open>sub\<close> the
  content of its subtitle, \<open>None\<close> once \<^verbatim>\<open>av_frame_unref\<close> or \<^verbatim>\<open>avsubtitle_free\<close> has
  released it.
\<close>

record Frame =
  frame :: "nat option"
  sub :: "nat option"
  serial :: int
  pts :: double
  duration :: double
  pos :: int
  width :: int
  height :: int
  format :: int
  uploaded :: int
  flip_v :: int

definition FRAME_QUEUE_SIZE :: int where
  "FRAME_QUEUE_SIZE = 16"

record FrameQueue =
  queue :: "Frame list"
  rindex :: int
  windex :: int
  size :: int
  max_size :: int
  keep_last :: int
  rindex_shown :: int
  pktq :: queue_id

definition frame_queue_unref_item :: "Frame \<Rightarrow> Frame" where
  "frame_queue_unref_item vp = vp\<lparr>frame := None, sub := None\<rparr>"

text \<open>
  \<^verbatim>\<open>frame_queue_init\<close>: the struct is zeroed, the two SDL objects are created (\<open>sdl_ok\<close>)
  and an \<^verbatim>\<open>AVFrame\<close> is allocated for each of the first \<open>max_size\<close> cells (\<open>alloc_ok\<close>).
\<close>

definition frame_queue_init :: "queue_id \<Rightarrow> int \<Rightarrow> int \<Rightarrow> bool \<Rightarrow> bool \<Rightarrow> int + FrameQueue" where
  "frame_queue_init q msize klast sdl_ok alloc_ok =
     (if \<not> sdl_ok then Inl (AVERROR ENOMEM)
      else
        let zero = \<lparr>frame = None, sub = None, serial = 0, pts = Dbl 0, duration = Dbl 0,
                    pos = 0, width = 0, height = 0, format = 0, uploaded = 0, flip_v = 0\<rparr>;
            f = \<lparr>queue = replicate (nat FRAME_QUEUE_SIZE) zero, rindex = 0, windex = 0,
                 size = 0, max_size = FFMIN msize FRAME_QUEUE_SIZE,
                 keep_last = (if klast \<noteq> 0 then 1 else 0), rindex_shown = 0, pktq = q\<rparr>
        in if 0 < max_size f \<and> \<not> alloc_ok then Inl (AVERROR ENOMEM) else Inr f)"

text \<open>The peek functions return the index of the cell whose address the C code returns.\<close>

definition frame_queue_peek :: "FrameQueue \<Rightarrow> int" where
  "frame_queue_peek f = (rindex f + rindex_shown f) smod max_size f"

definition frame_queue_peek_next :: "FrameQueue \<Rightarrow> int" where
  "frame_queue_peek_next f = (rindex f + rindex_shown f + 1) smod max_size f"

definition frame_queue_peek_last :: "FrameQueue \<Rightarrow> int" where
  "frame_queue_peek_last f = rindex f"

definition frame_queue_push :: "FrameQueue \<Rightarrow> FrameQueue" where
  "frame_queue_push f =
     (let w = windex f + 1;
          f1 = f\<lparr>windex := (if w = max_size f then 0 else w)\<rparr>
      in f1\<lparr>FrameQueue.size := FrameQueue.size f1 + 1\<rparr>)"

definition frame_queue_next :: "FrameQueue \<Rightarrow> FrameQueue" where
  "frame_queue_next f =
     (if keep_last f \<noteq> 0 \<and> rindex_shown f = 0 then f\<lparr>rindex_shown := 1\<rparr>
      else
        let f1 = f\<lparr>queue := (queue f)[nat (rindex f) :=
                        frame_queue_unref_item (queue f ! nat (rindex f))]\<rparr>;
            r = rindex f1 + 1;
            f2 = f1\<lparr>rindex := (if r = max_size f1 then 0 else r)\<rparr>
        in f2\<lparr>FrameQueue.size := FrameQueue.size f2 - 1\<rparr>)"

definition frame_queue_nb_remaining :: "FrameQueue \<Rightarrow> int" where
  "frame_queue_nb_remaining f = FrameQueue.size f - rindex_shown f"

text \<open>
  What every frame queue the player builds satisfies: the indices lie inside the ring
  and the two flags are 0 or 1.
\<close>

definition frame_queue_wf :: "FrameQueue \<Rightarrow> bool" where
  "frame_queue_wf f \<longleftrightarrow>
     length (queue f) = nat FRAME_QUEUE_SIZE \<and>
     0 < max_size f \<and> max_size f \<le> FRAME_QUEUE_SIZE \<and>
     0 \<le> rindex f \<and> rindex f < max_size f \<and>
     0 \<le> windex f \<and> windex f < max_size f \<and>
     (keep_last f = 0 \<or> keep_last f = 1) \<and>
     (rindex_shown f = 0 \<or> rindex_shown f = 1)"

subsection \<open>The player state\<close>

datatype sync_type = AV_SYNC_AUDIO_MASTER | AV_SYNC_VIDEO_MASTER | AV_SYNC_EXTERNAL_CLOCK

record AudioParams =
  freq :: int
  frame_size :: int
  bytes_per_sec :: int

record Decoder =
  pkt_serial :: int
  finished :: int

text \<open>Of an \<^verbatim>\<open>AVStream\<close> and an \<^verbatim>\<open>AVFrame\<close> (structs of the libraries), the fields the
  modelled functions read; \<open>buf\<close> is the data the frame references.\<close>

record AVStream =
  time_base :: AVRational
  disposition :: int

record AVFrame =
  pts :: int
  buf :: "nat option"

text \<open>
  Of \<^verbatim>\<open>VideoState\<close>, the fields the modelled functions use. A stream pointer is \<open>None\<close>
  when it is NULL.
\<close>

record VideoState =
  audclk :: Clock
  vidclk :: Clock
  extclk :: Clock
  pictq :: FrameQueue
  viddec :: Decoder
  audio_stream :: int
  av_sync_type :: sync_type
  audio_diff_cum :: double
  audio_diff_avg_coef :: double
  audio_diff_threshold :: double
  audio_diff_avg_count :: int
  audio_st :: "AVStream option"
  audioq :: PacketQueue
  audio_src :: AudioParams
  frame_drops_early :: int
  subtitle_stream :: int
  subtitle_st :: "AVStream option"
  subtitleq :: PacketQueue
  frame_last_filter_delay :: double
  video_stream :: int
  video_st :: "AVStream option"
  videoq :: PacketQueue
  max_frame_duration :: double

text \<open>The cells the serial pointers of the clocks name (\<^verbatim>\<open>stream_open\<close> sets them so).\<close>

fun serial_mem :: "VideoState \<Rightarrow> serial_ref \<Rightarrow> int" where
  "serial_mem is (QueueSerial AudioQ) = PacketQueue.serial (audioq is)"
| "serial_mem is (QueueSerial VideoQ) = PacketQueue.serial (videoq is)"
| "serial_mem is (QueueSerial SubtitleQ) = PacketQueue.serial (subtitleq is)"
| "serial_mem is ExtclkSerial = Clock.serial (extclk is)"



subsection \<open>The delay of the next video frame\<close>



subsection \<open>Early frame drop\<close>




subsection \<open>Audio synchronisation\<close>


subsection \<open>Backpressure of the reader\<close>

text \<open>
  The stream pointer is read only when the stream index is not negative and the queue is
  not aborted; the player sets index and pointer together, and the model reads a NULL
  there as a stream without enough packets.
\<close>

definition stream_has_enough_packets :: "AVStream option \<Rightarrow> int \<Rightarrow> PacketQueue \<Rightarrow> bool" where
  "stream_has_enough_packets st stream_id q \<longleftrightarrow>
     stream_id < 0 \<or>
     abort_request q \<noteq> 0 \<or>
     (case st of
        None \<Rightarrow> False
      | Some s \<Rightarrow>
          (disposition s AND AV_DISPOSITION_ATTACHED_PIC) \<noteq> 0 \<or>
          nb_packets q > MIN_FRAMES \<and>
          (PacketQueue.duration q = 0 \<or>
           av_q2d (time_base s) * int_to_double (PacketQueue.duration q) > Dbl 1.0))"

text \<open>
  The test of \<^verbatim>\<open>read_thread\<close> that decides, in each round of its loop that reaches it,
  between the wait of 10 ms on \<^verbatim>\<open>continue_read_thread\<close> followed by \<^verbatim>\<open>continue\<close>, and
  going on to read a packet. \<open>infinite_buffer\<close> is the option of that name.
\<close>

datatype reader_step = Wait_10ms_and_continue | Go_on_reading

definition read_thread_backpressure :: "int \<Rightarrow> VideoState \<Rightarrow> reader_step" where
  "read_thread_backpressure infinite_buffer is =
     (if infinite_buffer < 1 \<and>
         (PacketQueue.size (audioq is) + PacketQueue.size (videoq is) +
            PacketQueue.size (subtitleq is) > MAX_QUEUE_SIZE \<or>
          (stream_has_enough_packets (audio_st is) (audio_stream is) (audioq is) \<and>
           stream_has_enough_packets (video_st is) (video_stream is) (videoq is) \<and>
           stream_has_enough_packets (subtitle_st is) (subtitle_stream is) (subtitleq is)))
      then Wait_10ms_and_continue
      else Go_on_reading)"

subsection \<open>Concrete states\<close>

text \<open>
  A player state on which the functions are evaluated: an audio and a video stream with
  a time base of 1/1000, empty started queues of serial 1, and running clocks of speed 1
  that were set at the time 100; read at the time 100, the audio and the external clock
  show 10 and the video clock shows 30.
\<close>

definition fresh_cells :: "nat \<Rightarrow> MyAVPacketList" where
  "fresh_cells i = \<lparr>pkt = \<lparr>data = [], size = 0, duration = 0, stream_index = 0\<rparr>, serial = 0\<rparr>"

definition started_queue :: PacketQueue where
  "started_queue =
     \<lparr>pkt_list = \<lparr>buffer = [fresh_cells 0], elem_size = 16, nb_elems = 1, offset_r = 0,
                  offset_w = 0, is_empty = 1, flags = 1, auto_grow_limit = 65536\<rparr>,
      nb_packets = 0, size = 0, duration = 0, abort_request = 0, serial = 1\<rparr>"

definition running_clock :: "serial_ref \<Rightarrow> real \<Rightarrow> int \<Rightarrow> Clock" where
  "running_clock r p ser = set_clock_at (init_clock r (Dbl 0)) (Dbl p) ser (Dbl 100)"

definition a_stream :: AVStream where
  "a_stream = \<lparr>time_base = \<lparr>num = 1, den = 1000\<rparr>, disposition = 0\<rparr>"

definition a_frame :: "real \<Rightarrow> int \<Rightarrow> real \<Rightarrow> Frame" where
  "a_frame p ser d =
     \<lparr>frame = Some 7, sub = None, serial = ser, pts = Dbl p, duration = Dbl d, pos = 0,
      width = 352, height = 288, format = 0, uploaded = 0, flip_v = 0\<rparr>"

definition player_state :: VideoState where
  "player_state =
     \<lparr>audclk = running_clock (QueueSerial AudioQ) 10 1,
      vidclk = running_clock (QueueSerial VideoQ) 30 1,
      extclk = running_clock ExtclkSerial 10 1,
      pictq = \<lparr>queue = replicate 16 (a_frame 0 0 0), rindex = 0, windex = 0, size = 0,
                max_size = 3, keep_last = 1, rindex_shown = 0, pktq = VideoQ\<rparr>,
      viddec = \<lparr>pkt_serial = 1, finished = 0\<rparr>,
      audio_stream = 1,
      av_sync_type = AV_SYNC_AUDIO_MASTER,
      audio_diff_cum = Dbl 0,
      audio_diff_avg_coef = Dbl 0.7943282347242815,
      audio_diff_threshold = Dbl 0.0232,
      audio_diff_avg_count = 0,
      audio_st = Some a_stream,
      audioq = started_queue,
      audio_src = \<lparr>freq = 48000, frame_size = 4, bytes_per_sec = 192000\<rparr>,
      frame_drops_early = 0,
      subtitle_stream = - 1,
      subtitle_st = None,
      subtitleq = started_queue,
      frame_last_filter_delay = Dbl 0,
      video_stream = 0,
      video_st = Some a_stream,
      videoq = started_queue,
      max_frame_duration = Dbl 3600\<rparr>"

text \<open>
  A packet with a tag for its payload, a well-formed queue that holds given entries, the
  queue after one packet of 100 bytes and duration 40 was put on the started queue, and
  player states built from them: one with audio alone and \<open>n\<close> audio packets of 100
  bytes and duration 80, one with a video packet waiting, one whose master is the external
  clock, with an audio clock 1/512 second ahead of it and twenty differences averaged.
  \<open>video_frames\<close> is a frame queue of three cells that holds two frames.
\<close>

definition a_packet :: "nat \<Rightarrow> int \<Rightarrow> int \<Rightarrow> AVPacket" where
  "a_packet tag sz dur = \<lparr>data = [tag], size = sz, duration = dur, stream_index = 1\<rparr>"

definition queue_of :: "MyAVPacketList list \<Rightarrow> int \<Rightarrow> PacketQueue" where
  "queue_of es ser =
     \<lparr>pkt_list = \<lparr>buffer = es @ [fresh_cells 0], elem_size = 16, nb_elems = length es + 1,
                  offset_r = 0, offset_w = length es, is_empty = (if es = [] then 1 else 0),
                  flags = 1, auto_grow_limit = 65536\<rparr>,
      nb_packets = int (length es),
      size = sum_list (map (\<lambda>e. AVPacket.size (pkt e) + sizeof_MyAVPacketList) es),
      duration = sum_list (map (\<lambda>e. AVPacket.duration (pkt e)) es),
      abort_request = 0, serial = ser\<rparr>"

definition one_packet_queue :: PacketQueue where
  "one_packet_queue = snd (packet_queue_put started_queue (a_packet 7 100 40) True (Some fresh_cells))"

definition audio_only_state :: "int \<Rightarrow> VideoState" where
  "audio_only_state n =
     player_state\<lparr>video_stream := - 1, video_st := None,
       audioq := queue_of (replicate (nat n) \<lparr>pkt = a_packet 0 100 80, serial = 1\<rparr>) 1\<rparr>"



definition video_frames :: FrameQueue where
  "video_frames =
     \<lparr>queue = a_frame 1 1 0.04 # a_frame 1.04 1 0.04 # replicate 14 (a_frame 0 0 0),
      rindex = 0, windex = 2, size = 2, max_size = 3, keep_last = 1, rindex_shown = 0,
      pktq = VideoQ\<rparr>"

subsection \<open>The reader's test in the words of claim C3\<close>

text \<open>
  Claim C3 says that a stream has enough packets when it holds at least 25 packets and at
  least 1 second of encoded duration, and that absent, aborted and attached-picture
  streams count as having enough. The two definitions follow these words, not the code.
\<close>

definition claimed_enough :: "AVStream option \<Rightarrow> int \<Rightarrow> PacketQueue \<Rightarrow> bool" where
  "claimed_enough st stream_id q \<longleftrightarrow>
     stream_id < 0 \<or> abort_request q \<noteq> 0 \<or>
     (case st of
        None \<Rightarrow> True
      | Some s \<Rightarrow>
          (disposition s AND AV_DISPOSITION_ATTACHED_PIC) \<noteq> 0 \<or>
          nb_packets q \<ge> 25 \<and>
          av_q2d (time_base s) * int_to_double (PacketQueue.duration q) \<ge> Dbl 1)"

definition claimed_reader_blocks :: "int \<Rightarrow> VideoState \<Rightarrow> bool" where
  "claimed_reader_blocks infinite_buffer is \<longleftrightarrow>
     infinite_buffer < 1 \<and>
     (PacketQueue.size (audioq is) + PacketQueue.size (videoq is) +
        PacketQueue.size (subtitleq is) > 15 * 1024 * 1024 \<or>
      (claimed_enough (audio_st is) (audio_stream is) (audioq is) \<and>
       claimed_enough (video_st is) (video_stream is) (videoq is) \<and>
       claimed_enough (subtitle_st is) (subtitle_stream is) (subtitleq is)))"

section \<open>The fifo is a queue\<close>

text \<open>
  On a well-formed fifo the functions of fifo.c act on \<open>fifo_list\<close> as the operations of
  a queue: a write appends, a read removes the head, growing changes nothing.
\<close>

lemma av_fifo_can_read_length: "fifo_wf f \<Longrightarrow> av_fifo_can_read f = length (fifo_list f)"
  by (auto simp: fifo_wf_def av_fifo_can_read_def fifo_list_def split: if_splits)

text \<open>
  The assertion of \<^verbatim>\<open>av_fifo_drain2\<close> at the calls from \<^verbatim>\<open>av_fifo_read\<close>.
\<close>

lemma av_fifo_read_assertion:
  "(case fifo_peek_common f of Inl ret \<Rightarrow> 0 | Inr x \<Rightarrow> 1) \<le> av_fifo_can_read f"
  by (simp add: fifo_peek_common_def Let_def)

lemma av_fifo_drain2_one_fields:
  assumes "fifo_wf f"
  shows "offset_r (av_fifo_drain2 f (Suc 0)) = (if Suc (offset_r f) = nb_elems f then 0 else Suc (offset_r f))"
    and "is_empty (av_fifo_drain2 f (Suc 0)) = (if av_fifo_can_read f = Suc 0 then 1 else is_empty f)"
    and "buffer (av_fifo_drain2 f (Suc 0)) = buffer f"
    and "offset_w (av_fifo_drain2 f (Suc 0)) = offset_w f"
    and "nb_elems (av_fifo_drain2 f (Suc 0)) = nb_elems f"
  using assms by (auto simp: av_fifo_drain2_def Let_def fifo_wf_def)

lemma av_fifo_drain2_one_wf:
  assumes "fifo_wf f" "is_empty f = 0"
  shows "fifo_wf (av_fifo_drain2 f (Suc 0))"
  using assms av_fifo_drain2_one_fields[OF assms(1)]
  by (auto simp: fifo_wf_def av_fifo_can_read_def split: if_splits)

lemma av_fifo_drain2_one_list:
  assumes "fifo_wf f" "is_empty f = 0"
  shows "fifo_list f = buffer f ! offset_r f # fifo_list (av_fifo_drain2 f (Suc 0))"
proof -
  let ?b = "buffer f" and ?r = "offset_r f" and ?w = "offset_w f"
  have r: "?r < length ?b" using assms by (simp add: fifo_wf_def)
  have w: "?w < length ?b" using assms by (simp add: fifo_wf_def)
  have d: "drop ?r ?b = ?b ! ?r # drop (Suc ?r) ?b"
    using r by (simp add: Cons_nth_drop_Suc)
  show ?thesis
  proof (cases "?r < ?w")
    case True
    then have "take (?w - ?r) (drop ?r ?b) = ?b ! ?r # take (?w - Suc ?r) (drop (Suc ?r) ?b)"
      using d by (simp add: take_Cons')
    then show ?thesis
      using True assms r w
      by (auto simp: fifo_list_def av_fifo_drain2_one_fields[OF assms(1)] av_fifo_can_read_def fifo_wf_def)
  next
    case False
    then show ?thesis
      using assms r w d
      by (auto simp: fifo_list_def av_fifo_drain2_one_fields[OF assms(1)] av_fifo_can_read_def fifo_wf_def)
  qed
qed

lemma copy_cells_wrap_small:
  assumes "w \<le> r" "r < length b" "inc < w" "length J = inc"
  shows "length (copy_cells (copy_cells (b @ J) (length b) 0 inc) 0 inc (w - inc)) = length b + inc"
    and "drop r (copy_cells (copy_cells (b @ J) (length b) 0 inc) 0 inc (w - inc))
         @ take (w - inc) (copy_cells (copy_cells (b @ J) (length b) 0 inc) 0 inc (w - inc))
         = drop r b @ take w b"
proof -
  have t1: "copy_cells (b @ J) (length b) 0 inc = b @ take inc b"
    using assms by (simp add: copy_cells_def)
  have t2: "copy_cells (b @ take inc b) 0 inc (w - inc)
            = take (w - inc) (drop inc b) @ drop (w - inc) b @ take inc b"
    using assms by (simp add: copy_cells_def)
  show "length (copy_cells (copy_cells (b @ J) (length b) 0 inc) 0 inc (w - inc)) = length b + inc"
    using assms by (simp add: t1 t2)
  have "take w b = take inc b @ take (w - inc) (drop inc b)"
    using assms by (metis add_diff_inverse_nat less_imp_le_nat not_less take_add)
  then show "drop r (copy_cells (copy_cells (b @ J) (length b) 0 inc) 0 inc (w - inc))
         @ take (w - inc) (copy_cells (copy_cells (b @ J) (length b) 0 inc) 0 inc (w - inc))
         = drop r b @ take w b"
    using assms by (simp add: t1 t2)
qed

lemma copy_cells_wrap_big:
  assumes "w \<le> r" "r < length b" "w \<le> inc" "length J = inc"
  shows "length (copy_cells (b @ J) (length b) 0 w) = length b + inc"
    and "w = inc \<Longrightarrow> drop r (copy_cells (b @ J) (length b) 0 w) = drop r b @ take w b"
    and "w < inc \<Longrightarrow> take (length b + w - r) (drop r (copy_cells (b @ J) (length b) 0 w)) = drop r b @ take w b"
  using assms by (simp_all add: copy_cells_def)


lemma av_fifo_grow2_no_memory:
  "av_fifo_grow2 f inc None = (ret, f') \<Longrightarrow> ret < 0 \<and> f' = f"
  by (auto simp: av_fifo_grow2_def AVERROR_def EINVAL_def ENOMEM_def split: if_splits)

lemma av_fifo_grow2_cases:
  assumes wf: "fifo_wf f" and r: "av_fifo_grow2 f inc (Some fresh) = (ret, f')"
  shows "(ret < 0 \<and> f' = f) \<or>
         (ret = 0 \<and> fifo_wf f' \<and> fifo_list f' = fifo_list f \<and> nb_elems f' = nb_elems f + inc
          \<and> is_empty f' = is_empty f \<and> flags f' = flags f \<and> auto_grow_limit f' = auto_grow_limit f)"
proof (cases "inc > SIZE_MAX - nb_elems f")
  case True
  then show ?thesis using r by (simp add: av_fifo_grow2_def AVERROR_def EINVAL_def)
next
  case False
  let ?b = "buffer f" and ?J = "map fresh [0..<inc]"
  have lenJ: "length ?J = inc" by simp
  have lb: "length ?b = nb_elems f" and rr: "offset_r f < nb_elems f" and ww: "offset_w f < nb_elems f"
    and sm: "nb_elems f \<le> SIZE_MAX"
    using wf by (simp_all add: fifo_wf_def)
  have bound: "nb_elems f + inc \<le> SIZE_MAX" using False sm by arith
  show ?thesis
  proof (cases "offset_w f \<le> offset_r f \<and> is_empty f = 0")
    case nowrap: False
    then have f': "f' = f\<lparr>buffer := ?b @ ?J, nb_elems := nb_elems f + inc\<rparr>" and "ret = 0"
      using r False by (auto simp: av_fifo_grow2_def Let_def)
    then show ?thesis
      using nowrap wf bound by (auto simp: fifo_wf_def fifo_list_def split: if_splits)
  next
    case wrap: True
    show ?thesis
    proof (cases "inc < offset_w f")
      case small: True
      then have f': "f' = f\<lparr>buffer := copy_cells (copy_cells (?b @ ?J) (length ?b) 0 inc) 0 inc (offset_w f - inc),
                         offset_w := offset_w f - inc, nb_elems := nb_elems f + inc\<rparr>" and "ret = 0"
        using r False wrap lb by (auto simp: av_fifo_grow2_def Let_def FFMIN_def)
      moreover note copy_cells_wrap_small[of "offset_w f" "offset_r f" ?b inc ?J]
      ultimately show ?thesis
        using wrap wf bound small lenJ by (auto simp: fifo_wf_def fifo_list_def)
    next
      case big: False
      then have f': "f' = f\<lparr>buffer := copy_cells (?b @ ?J) (length ?b) 0 (offset_w f),
                         offset_w := (if offset_w f = inc then 0 else nb_elems f + offset_w f),
                         nb_elems := nb_elems f + inc\<rparr>" and "ret = 0"
        using r False wrap lb by (auto simp: av_fifo_grow2_def Let_def FFMIN_def)
      moreover note copy_cells_wrap_big[of "offset_w f" "offset_r f" ?b inc ?J]
      ultimately show ?thesis
        using wrap wf bound big lenJ by (auto simp: fifo_wf_def fifo_list_def)
    qed
  qed
qed

lemma fifo_list_length_le: "fifo_wf f \<Longrightarrow> length (fifo_list f) \<le> nb_elems f"
  by (auto simp: fifo_wf_def fifo_list_def split: if_splits)

lemma fifo_check_space_cases:
  assumes wf: "fifo_wf f" and r: "fifo_check_space f (Suc 0) mem = (ret, f1)"
  shows "(ret < 0 \<and> f1 = f) \<or>
         (ret = 0 \<and> fifo_wf f1 \<and> fifo_list f1 = fifo_list f \<and> length (fifo_list f1) < nb_elems f1)"
proof (cases "length (fifo_list f) < nb_elems f")
  case True
  then have "av_fifo_can_write f \<ge> 1"
    using av_fifo_can_read_length[OF wf] by (simp add: av_fifo_can_write_def)
  then have "ret = 0 \<and> f1 = f"
    using r by (auto simp: fifo_check_space_def Let_def)
  then show ?thesis using True wf by simp
next
  case False
  then have full: "length (fifo_list f) = nb_elems f" using fifo_list_length_le[OF wf] by simp
  then have cw: "av_fifo_can_write f = 0"
    using av_fifo_can_read_length[OF wf] by (simp add: av_fifo_can_write_def)
  let ?can_grow = "if auto_grow_limit f > nb_elems f then auto_grow_limit f - nb_elems f else 0"
  let ?inc = "if Suc 0 < ?can_grow div 2 then 2 else ?can_grow"
  show ?thesis
  proof (cases "(flags f AND AV_FIFO_FLAG_AUTO_GROW) \<noteq> 0 \<and> Suc 0 \<le> ?can_grow")
    case False
    then have "ret = AVERROR ENOSPC \<and> f1 = f"
      using r cw by (auto simp: fifo_check_space_def Let_def)
    then show ?thesis by (simp add: AVERROR_def ENOSPC_def)
  next
    case True
    then have g: "av_fifo_grow2 f ?inc mem = (ret, f1)"
      using r cw by (auto simp: fifo_check_space_def Let_def)
    have inc: "0 < ?inc" using True by (auto split: if_splits)
    show ?thesis
    proof (cases mem)
      case None
      then show ?thesis using g av_fifo_grow2_no_memory[of f ?inc ret f1] by simp
    next
      case (Some fresh)
      then show ?thesis using g av_fifo_grow2_cases[OF wf, of ?inc fresh ret f1] inc full
        by auto
    qed
  qed
qed

lemma take_update_snoc: "n < length xs \<Longrightarrow> take (Suc n) (xs[n := x]) = take n xs @ [x]"
  by (simp add: take_Suc_conv_app_nth)

lemma fifo_store_cell:
  fixes x :: 'a and f :: "'a AVFifo"
  assumes wf: "fifo_wf f" and nf: "length (fifo_list f) < nb_elems f"
  defines "f' \<equiv> f\<lparr>buffer := (buffer f)[offset_w f := x],
                  offset_w := (if nb_elems f \<le> Suc (offset_w f) then 0 else Suc (offset_w f)),
                  is_empty := 0\<rparr>"
  shows "fifo_wf f'" and "fifo_list f' = fifo_list f @ [x]"
proof -
  show "fifo_wf f'" using wf by (auto simp: f'_def fifo_wf_def)
  let ?b = "buffer f" and ?r = "offset_r f" and ?w = "offset_w f"
  have lb: "length ?b = nb_elems f" and rr: "?r < nb_elems f" and ww: "?w < nb_elems f"
    using wf by (simp_all add: fifo_wf_def)
  have tk: "take (Suc ?w) (?b[?w := x]) = take ?w ?b @ [x]"
    using ww lb by (simp add: take_update_snoc)
  have seg: "take (Suc (?w - ?r)) (drop ?r (?b[?w := x])) = take (?w - ?r) (drop ?r ?b) @ [x]"
    if "?r \<le> ?w"
  proof -
    have "drop ?r (?b[?w := x]) = (drop ?r ?b)[?w - ?r := x]"
      using that by (simp add: drop_update_swap)
    moreover have "?w - ?r < length (drop ?r ?b)" using that ww lb by simp
    ultimately show ?thesis by (simp add: take_update_snoc)
  qed
  have whole: "drop ?r (?b[?w := x]) = take (?w - ?r) (drop ?r ?b) @ [x]"
    if "?r \<le> ?w" "Suc ?w = nb_elems f"
  proof -
    have "length (drop ?r (?b[?w := x])) = Suc (?w - ?r)" using that lb by simp
    then have "drop ?r (?b[?w := x]) = take (Suc (?w - ?r)) (drop ?r (?b[?w := x]))" by simp
    then show ?thesis using seg[OF that(1)] by simp
  qed
  consider (empty) "is_empty f \<noteq> 0" | (contig) "is_empty f = 0" "?r < ?w" | (wrap) "is_empty f = 0" "?w \<le> ?r"
    by linarith
  then show "fifo_list f' = fifo_list f @ [x]"
  proof cases
    case empty
    then have e: "?r = ?w" using wf by (auto simp: fifo_wf_def split: if_splits)
    show ?thesis
    proof (cases "Suc ?w = nb_elems f")
      case True
      then show ?thesis using empty e whole by (simp add: f'_def fifo_list_def)
    next
      case False
      then have "Suc ?w < nb_elems f" using ww by simp
      then show ?thesis using empty e seg by (simp add: f'_def fifo_list_def)
    qed
  next
    case contig
    show ?thesis
    proof (cases "Suc ?w = nb_elems f")
      case True
      then show ?thesis using contig whole rr by (simp add: f'_def fifo_list_def)
    next
      case False
      then have "Suc ?w < nb_elems f" using ww by simp
      then show ?thesis using contig seg by (simp add: f'_def fifo_list_def Suc_diff_le)
    qed
  next
    case wrap
    then have "?w < ?r" using nf lb rr ww by (auto simp: fifo_list_def)
    then show ?thesis using wrap lb ww rr tk
      by (auto simp: f'_def fifo_list_def)
  qed
qed

lemma av_fifo_write_cases:
  assumes wf: "fifo_wf f" and r: "av_fifo_write f x mem = (ret, f')"
  shows "(ret < 0 \<and> f' = f) \<or> (ret = 0 \<and> fifo_wf f' \<and> fifo_list f' = fifo_list f @ [x])"
proof -
  obtain ret1 f1 where c: "fifo_check_space f (Suc 0) mem = (ret1, f1)" by fastforce
  from fifo_check_space_cases[OF wf c] show ?thesis
  proof
    assume "ret1 < 0 \<and> f1 = f"
    then show ?thesis using r c by (simp add: av_fifo_write_def fifo_write_common_def)
  next
    assume a: "ret1 = 0 \<and> fifo_wf f1 \<and> fifo_list f1 = fifo_list f \<and> length (fifo_list f1) < nb_elems f1"
    then have w1: "fifo_wf f1" and n1: "length (fifo_list f1) < nb_elems f1" by auto
    have ret: "ret = 0" using r c a by (simp add: av_fifo_write_def fifo_write_common_def Let_def)
    have eq: "f' = f1\<lparr>buffer := (buffer f1)[offset_w f1 := x],
                  offset_w := (if nb_elems f1 \<le> Suc (offset_w f1) then 0 else Suc (offset_w f1)),
                  is_empty := 0\<rparr>"
      using r c a by (simp add: av_fifo_write_def fifo_write_common_def Let_def)
    have "fifo_wf f'" unfolding eq by (rule fifo_store_cell(1)[OF w1 n1])
    moreover have "fifo_list f' = fifo_list f1 @ [x]" unfolding eq by (rule fifo_store_cell(2)[OF w1 n1])
    ultimately show ?thesis using ret a by simp
  qed
qed

section \<open>Clocks and the delay of a video frame\<close>


lemma player_state_fields:
  "max_frame_duration player_state = Dbl 3600"
  "frame_last_filter_delay player_state = Dbl 0"
  "video_st player_state = Some a_stream"
  "audio_st player_state = Some a_stream"
  "viddec player_state = \<lparr>pkt_serial = 1, finished = 0\<rparr>"
  "Clock.serial (vidclk player_state) = 1"
  "videoq player_state = started_queue"
  "audioq player_state = started_queue"
  "subtitleq player_state = started_queue"
  "frame_drops_early player_state = 0"
  "av_sync_type player_state = AV_SYNC_AUDIO_MASTER"
  by (simp_all add: player_state_def running_clock_def set_clock_at_def)



text \<open>
  With exact arithmetic, a running clock of speed \<open>s\<close> that was set to \<open>x\<close> at the time
  \<open>t0\<close> shows \<open>x + (t1 - t0) * s\<close> at the time \<open>t1\<close>.
\<close>

lemma get_clock_running:
  "get_clock mem (set_clock_at (c\<lparr>speed := Dbl s, paused := 0\<rparr>) (Dbl x)
       (mem (queue_serial c)) (Dbl t0)) (Dbl t1)
     = Dbl (x + (t1 - t0) * s)"
  by (simp add: get_clock_def set_clock_at_def algebra_simps)

text \<open>
  Claim C1. Reading a clock gives NaN when the serial the clock stores differs from the
  serial its pointer reads; otherwise the stored pts when the clock is paused, and
  \<open>pts_drift + now - (now - last_updated) * (1 - speed)\<close> when it runs. \<^verbatim>\<open>set_clock_at\<close>
  sets \<open>pts_drift\<close> to the pts minus the time of the update, so that a clock read after
  \<^verbatim>\<open>set_clock_at\<close> shows \<open>(pts - t) + now - (now - t) * (1 - speed)\<close> when it runs.
\<close>

theorem get_clock_value:
  "get_clock mem c now =
     (if mem (queue_serial c) \<noteq> Clock.serial c then NaN
      else if paused c \<noteq> 0 then Clock.pts c
      else pts_drift c + now - (now - last_updated c) * (Dbl 1 - speed c)) \<and>
   pts_drift (set_clock_at c p ser t) = p - t \<and>
   get_clock mem (set_clock_at c p ser t) now =
     (if mem (queue_serial c) \<noteq> ser then NaN
      else if paused c \<noteq> 0 then p
      else (p - t) + now - (now - t) * (Dbl 1 - speed c))"
  by (simp add: get_clock_def set_clock_at_def)

theorem get_clock_value_witness:
  "get_clock (serial_mem player_state) (running_clock (QueueSerial VideoQ) 30 1) (Dbl 104)
     = Dbl 34 \<and>
   get_clock (serial_mem player_state) (running_clock (QueueSerial VideoQ) 30 0) (Dbl 104)
     = NaN \<and>
   get_clock (serial_mem player_state)
     ((running_clock (QueueSerial VideoQ) 30 1)\<lparr>paused := 1\<rparr>) (Dbl 104) = Dbl 30 \<and>
   pts_drift (running_clock (QueueSerial VideoQ) 30 1) = Dbl (- 70)"
  using get_clock_value [where mem = "serial_mem player_state"
      and c = "running_clock (QueueSerial VideoQ) 30 1" and now = "Dbl 104"]
    get_clock_value [where mem = "serial_mem player_state"
      and c = "running_clock (QueueSerial VideoQ) 30 0" and now = "Dbl 104"]
    get_clock_value [where mem = "serial_mem player_state"
      and c = "(running_clock (QueueSerial VideoQ) 30 1)\<lparr>paused := 1\<rparr>" and now = "Dbl 104"]
  by (simp add: running_clock_def set_clock_at_def init_clock_def set_clock_def
      player_state_fields started_queue_def)






section \<open>The packet queue\<close>

text \<open>
  A read of a well-formed fifo fails and changes nothing when the fifo is empty, and
  takes the oldest element otherwise.
\<close>

lemma av_fifo_read_empty:
  assumes "fifo_wf f" "fifo_list f = []"
  shows "av_fifo_read f = (Inl (AVERROR EINVAL), f)"
proof -
  have "av_fifo_can_read f = 0" using assms av_fifo_can_read_length[of f] by simp
  moreover from this have "av_fifo_drain2 f 0 = f"
    using assms by (auto simp: av_fifo_drain2_def Let_def fifo_wf_def fifo_list_def split: if_splits)
  ultimately show ?thesis by (simp add: av_fifo_read_def fifo_peek_common_def)
qed

lemma av_fifo_read_nonempty:
  assumes "fifo_wf f" "fifo_list f = x # xs"
  shows "av_fifo_read f = (Inr x, av_fifo_drain2 f (Suc 0))"
    and "fifo_wf (av_fifo_drain2 f (Suc 0))"
    and "fifo_list (av_fifo_drain2 f (Suc 0)) = xs"
proof -
  have ne: "is_empty f = 0" using assms(2) by (auto simp: fifo_list_def split: if_splits)
  have cr: "av_fifo_can_read f = Suc (length xs)"
    using assms av_fifo_can_read_length[of f] by simp
  have l: "fifo_list f = buffer f ! offset_r f # fifo_list (av_fifo_drain2 f (Suc 0))"
    by (rule av_fifo_drain2_one_list[OF assms(1) ne])
  then have x: "buffer f ! offset_r f = x" and "fifo_list (av_fifo_drain2 f (Suc 0)) = xs"
    using assms(2) by simp_all
  then show "fifo_list (av_fifo_drain2 f (Suc 0)) = xs" by simp
  show "fifo_wf (av_fifo_drain2 f (Suc 0))" by (rule av_fifo_drain2_one_wf[OF assms(1) ne])
  show "av_fifo_read f = (Inr x, av_fifo_drain2 f (Suc 0))"
    using assms(1) cr x by (simp add: av_fifo_read_def fifo_peek_common_def fifo_wf_def)
qed

lemma packet_queue_flush_loop_empties:
  "fifo_wf f \<Longrightarrow> \<exists>f'. packet_queue_flush_loop f = Some f' \<and> fifo_wf f' \<and> fifo_list f' = []"
proof (induction "fifo_list f" arbitrary: f)
  case Nil
  then show ?case
    using av_fifo_read_empty[of f]
    by (subst packet_queue_flush_loop.simps) simp
next
  case (Cons x xs)
  from Cons.prems Cons.hyps(2)[symmetric] have
    r: "av_fifo_read f = (Inr x, av_fifo_drain2 f (Suc 0))"
    and w: "fifo_wf (av_fifo_drain2 f (Suc 0))"
    and l: "fifo_list (av_fifo_drain2 f (Suc 0)) = xs"
    by (rule av_fifo_read_nonempty)+
  from Cons.hyps(1)[OF l[symmetric] w] show ?case
    using r by (subst packet_queue_flush_loop.simps) simp
qed

lemma packet_queue_put_private_inv:
  assumes inv: "packet_queue_inv q" and r: "packet_queue_put_private q p mem = (ret, q')"
  shows "(ret < 0 \<and> q' = q) \<or>
         (ret = 0 \<and> packet_queue_inv q' \<and>
          queue_packets q' = queue_packets q @ [\<lparr>pkt = p, serial = PacketQueue.serial q\<rparr>] \<and>
          nb_packets q' = nb_packets q + 1 \<and>
          PacketQueue.size q' = PacketQueue.size q + (AVPacket.size p + sizeof_MyAVPacketList) \<and>
          PacketQueue.duration q' = PacketQueue.duration q + AVPacket.duration p \<and>
          PacketQueue.serial q' = PacketQueue.serial q \<and> abort_request q' = abort_request q)"
proof (cases "abort_request q \<noteq> 0")
  case True
  then show ?thesis using r by (simp add: packet_queue_put_private_def)
next
  case False
  let ?e = "\<lparr>pkt = p, serial = PacketQueue.serial q\<rparr>"
  obtain ret1 fifo where w: "av_fifo_write (pkt_list q) ?e mem = (ret1, fifo)" by fastforce
  have wf: "fifo_wf (pkt_list q)" using inv by (simp add: packet_queue_inv_def)
  from av_fifo_write_cases[OF wf w] show ?thesis
  proof
    assume "ret1 < 0 \<and> fifo = pkt_list q"
    then show ?thesis using r w False by (simp add: packet_queue_put_private_def Let_def)
  next
    assume a: "ret1 = 0 \<and> fifo_wf fifo \<and> fifo_list fifo = fifo_list (pkt_list q) @ [?e]"
    then have "ret = 0" and "q' = q\<lparr>pkt_list := fifo, nb_packets := nb_packets q + 1,
         PacketQueue.size := PacketQueue.size q + (AVPacket.size p + sizeof_MyAVPacketList),
         PacketQueue.duration := PacketQueue.duration q + AVPacket.duration p\<rparr>"
      using r w False by (simp_all add: packet_queue_put_private_def Let_def)
    then show ?thesis using a inv
      by (simp add: packet_queue_inv_def queue_packets_def)
  qed
qed

lemma packet_queue_init_inv:
  "packet_queue_init mem sdl_ok = Inr q \<Longrightarrow>
   packet_queue_inv q \<and> queue_packets q = [] \<and> abort_request q = 1 \<and> PacketQueue.serial q = 0"
  by (auto simp: packet_queue_init_def av_fifo_alloc2_def packet_queue_inv_def queue_packets_def
      fifo_wf_def fifo_list_def SIZE_MAX_def split: option.splits if_splits)

lemma packet_queue_get_round_cases:
  assumes inv: "packet_queue_inv q"
  shows "packet_queue_get_round q block =
    (if abort_request q \<noteq> 0 then (Some (- 1, NoOutput), q)
     else case queue_packets q of
       [] \<Rightarrow> (if block = 0 then (Some (0, NoOutput), q) else (None, q))
     | e # es \<Rightarrow>
         (Some (1, GotPacket (pkt e) (MyAVPacketList.serial e)),
          q\<lparr>pkt_list := av_fifo_drain2 (pkt_list q) (Suc 0),
            nb_packets := nb_packets q - 1,
            PacketQueue.size := PacketQueue.size q - (AVPacket.size (pkt e) + sizeof_MyAVPacketList),
            PacketQueue.duration := PacketQueue.duration q - AVPacket.duration (pkt e)\<rparr>))"
proof -
  have wf: "fifo_wf (pkt_list q)" using inv by (simp add: packet_queue_inv_def)
  show ?thesis
  proof (cases "queue_packets q")
    case Nil
    then have "av_fifo_read (pkt_list q) = (Inl (AVERROR EINVAL), pkt_list q)"
      using av_fifo_read_empty[OF wf] by (simp add: queue_packets_def)
    then show ?thesis using Nil by (simp add: packet_queue_get_round_def)
  next
    case (Cons e es)
    then have "av_fifo_read (pkt_list q) = (Inr e, av_fifo_drain2 (pkt_list q) (Suc 0))"
      using av_fifo_read_nonempty(1)[OF wf] by (simp add: queue_packets_def)
    then show ?thesis using Cons by (simp add: packet_queue_get_round_def)
  qed
qed

lemma packet_queue_get_round_inv:
  assumes inv: "packet_queue_inv q"
  shows "packet_queue_inv (snd (packet_queue_get_round q block))"
proof (cases "queue_packets q")
  case Nil
  then show ?thesis using inv by (simp add: packet_queue_get_round_cases[OF inv])
next
  case (Cons e es)
  have wf: "fifo_wf (pkt_list q)" using inv by (simp add: packet_queue_inv_def)
  have l: "fifo_list (pkt_list q) = e # es" using Cons by (simp add: queue_packets_def)
  note av_fifo_read_nonempty(2,3)[OF wf l]
  then show ?thesis using inv Cons
    by (simp add: packet_queue_get_round_cases[OF inv] packet_queue_inv_def queue_packets_def)
qed

lemma packet_queue_flush_cases:
  assumes wf: "fifo_wf (pkt_list q)"
  shows "\<exists>q'. packet_queue_flush q = Some q' \<and> packet_queue_inv q' \<and> queue_packets q' = [] \<and>
           nb_packets q' = 0 \<and> PacketQueue.size q' = 0 \<and> PacketQueue.duration q' = 0 \<and>
           PacketQueue.serial q' = PacketQueue.serial q + 1 \<and>
           abort_request q' = abort_request q"
proof -
  from packet_queue_flush_loop_empties[OF wf] obtain f' where
    "packet_queue_flush_loop (pkt_list q) = Some f'" "fifo_wf f'" "fifo_list f' = []" by blast
  then show ?thesis
    by (simp add: packet_queue_flush_def packet_queue_inv_def queue_packets_def)
qed

lemma packet_queue_reachable_inv:
  "packet_queue_reachable q \<Longrightarrow> packet_queue_inv q"
proof (induction rule: packet_queue_reachable.induct)
  case (init mem sdl_ok q)
  then show ?case by (simp add: packet_queue_init_inv)
next
  case (put q p pkt1_alloc mem)
  obtain ret q' where r: "packet_queue_put_private q p mem = (ret, q')" by fastforce
  from packet_queue_put_private_inv[OF put.IH r] put.IH r show ?case
    by (auto simp: packet_queue_put_def)
next
  case (get q block)
  then show ?case by (simp add: packet_queue_get_round_inv)
next
  case (flush q q')
  then have "fifo_wf (pkt_list q)" by (simp add: packet_queue_inv_def)
  from packet_queue_flush_cases[OF this] flush.hyps(2) show ?case by auto
next
  case (abort q)
  then show ?case by (simp add: packet_queue_abort_def packet_queue_inv_def queue_packets_def)
next
  case (start q)
  then show ?case by (simp add: packet_queue_start_def packet_queue_inv_def queue_packets_def)
qed

lemma packet_queue_start_fields:
  "queue_packets (packet_queue_start q) = queue_packets q"
  "abort_request (packet_queue_start q) = 0"
  "PacketQueue.serial (packet_queue_start q) = PacketQueue.serial q + 1"
  by (simp_all add: packet_queue_start_def queue_packets_def)

text \<open>
  The concrete queues: their place among the reachable queues and their fields.
\<close>

lemma started_queue_reachable: "packet_queue_reachable started_queue"
proof -
  have "packet_queue_init (Some fresh_cells) True
        = Inr (started_queue\<lparr>abort_request := 1, PacketQueue.serial := 0\<rparr>)"
    by (simp add: packet_queue_init_def av_fifo_alloc2_def started_queue_def
        sizeof_MyAVPacketList_def AV_FIFO_FLAG_AUTO_GROW_def AUTO_GROW_DEFAULT_BYTES_def FFMAX_def)
  then have "packet_queue_reachable (started_queue\<lparr>abort_request := 1, PacketQueue.serial := 0\<rparr>)"
    by (rule packet_queue_reachable.init)
  then have "packet_queue_reachable
      (packet_queue_start (started_queue\<lparr>abort_request := 1, PacketQueue.serial := 0\<rparr>))"
    by (rule packet_queue_reachable.start)
  then show ?thesis by (simp add: packet_queue_start_def started_queue_def)
qed

lemma one_packet_queue_reachable: "packet_queue_reachable one_packet_queue"
  unfolding one_packet_queue_def by (rule packet_queue_reachable.put[OF started_queue_reachable])

lemma started_queue_packets: "queue_packets started_queue = []"
  by (simp add: started_queue_def queue_packets_def fifo_list_def)

lemma started_queue_fields:
  "nb_packets started_queue = 0" "PacketQueue.size started_queue = 0"
  "PacketQueue.duration started_queue = 0" "PacketQueue.serial started_queue = 1"
  "abort_request started_queue = 0"
  by (simp_all add: started_queue_def)


lemma one_packet_queue_put:
  "packet_queue_put started_queue (a_packet 7 100 40) True (Some fresh_cells) = (0, one_packet_queue)"
proof -
  obtain ret q' where r: "packet_queue_put_private started_queue (a_packet 7 100 40) (Some fresh_cells) = (ret, q')"
    by fastforce
  have "ret = 0"
    using r
    by (simp add: packet_queue_put_private_def started_queue_def av_fifo_write_def
        fifo_write_common_def fifo_check_space_def av_fifo_can_write_def av_fifo_can_read_def
        Let_def split: prod.splits if_splits)
  then show ?thesis using r by (simp add: one_packet_queue_def packet_queue_put_def)
qed

lemma one_packet_queue_fields:
  "PacketQueue.serial one_packet_queue = 1" "abort_request one_packet_queue = 0"
  "packet_queue_inv one_packet_queue"
  "queue_packets one_packet_queue = [\<lparr>pkt = a_packet 7 100 40, serial = 1\<rparr>]"
  using packet_queue_put_private_inv [OF packet_queue_reachable_inv [OF started_queue_reachable],
      of "a_packet 7 100 40" "Some fresh_cells" 0 one_packet_queue] one_packet_queue_put
  by (simp_all add: packet_queue_put_def started_queue_fields started_queue_packets)

lemma one_packet_queue_nb: "nb_packets one_packet_queue = 1"
  using one_packet_queue_fields(3,4) by (simp add: packet_queue_inv_def)

lemma queue_of_inv:
  "length es < 1000 \<Longrightarrow> packet_queue_inv (queue_of es ser) \<and> queue_packets (queue_of es ser) = es"
  by (auto simp: packet_queue_inv_def queue_of_def queue_packets_def fifo_list_def fifo_wf_def SIZE_MAX_def)

lemma queue_of_fields:
  "nb_packets (queue_of es ser) = int (length es)"
  "PacketQueue.size (queue_of es ser) = sum_list (map (\<lambda>e. AVPacket.size (pkt e) + sizeof_MyAVPacketList) es)"
  "PacketQueue.duration (queue_of es ser) = sum_list (map (\<lambda>e. AVPacket.duration (pkt e)) es)"
  "abort_request (queue_of es ser) = 0"
  "PacketQueue.serial (queue_of es ser) = ser"
  by (simp_all add: queue_of_def)




text \<open>
  Claim C6. On every queue whose fifo is well formed, as it is in every queue the player
  can reach, \<^verbatim>\<open>packet_queue_flush\<close> returns; the queue then holds no packet (so no
  sentinel packet either), its packet count, byte size and duration are 0, and its
  serial is the serial before the flush plus one. The abort flag is unchanged.
\<close>

theorem packet_queue_flush_empties:
  assumes "fifo_wf (pkt_list q)"
  shows "\<exists>q'. packet_queue_flush q = Some q' \<and> queue_packets q' = [] \<and>
           nb_packets q' = 0 \<and> PacketQueue.size q' = 0 \<and> PacketQueue.duration q' = 0 \<and>
           PacketQueue.serial q' = PacketQueue.serial q + 1 \<and>
           abort_request q' = abort_request q \<and> fifo_wf (pkt_list q')"
  using packet_queue_flush_cases[OF assms] by (auto simp: packet_queue_inv_def)

theorem packet_queue_flush_empties_witness:
  "queue_packets one_packet_queue \<noteq> [] \<and>
   (\<exists>q'. packet_queue_flush one_packet_queue = Some q' \<and> queue_packets q' = [] \<and>
      nb_packets q' = 0 \<and> PacketQueue.size q' = 0 \<and> PacketQueue.duration q' = 0 \<and>
      PacketQueue.serial q' = 2)"
proof -
  have "fifo_wf (pkt_list one_packet_queue)"
    using one_packet_queue_fields(3) by (simp add: packet_queue_inv_def)
  from packet_queue_flush_empties [OF this] show ?thesis
    by (auto simp: one_packet_queue_fields)
qed

text \<open>
  The return values of \<^verbatim>\<open>packet_queue_get\<close>, whatever the other threads do.
\<close>

lemma packet_queue_get_round_kinds:
  "packet_queue_get_round q block = (Some (ret, out), q') \<Longrightarrow>
     (ret = - 1 \<and> out = NoOutput \<and> abort_request q \<noteq> 0) \<or>
     (ret = 0 \<and> out = NoOutput \<and> block = 0 \<and> abort_request q = 0) \<or>
     (ret = 1 \<and> (\<exists>p s. out = GotPacket p s) \<and> abort_request q = 0)"
  by (auto simp: packet_queue_get_round_def split: if_splits prod.splits sum.splits)

lemma packet_queue_get_result_kinds:
  "packet_queue_get q block env = Some ((ret, out), q') \<Longrightarrow>
     (ret = - 1 \<and> out = NoOutput) \<or> (ret = 0 \<and> out = NoOutput \<and> block = 0) \<or>
     (ret = 1 \<and> (\<exists>p s. out = GotPacket p s))"
proof (induction env arbitrary: q)
  case Nil
  then show ?case
    using packet_queue_get_round_kinds[of q block ret out]
    by (auto split: prod.splits option.splits)
next
  case (Cons e env)
  then show ?case
    using packet_queue_get_round_kinds[of q block ret out]
    by (auto split: prod.splits option.splits)
qed

lemma packet_queue_get_returns:
  "packet_queue_get_round q block = (Some r, q') \<Longrightarrow> packet_queue_get q block env = Some (r, q')"
  by (cases env) simp_all

lemma packet_queue_get_first_round:
  assumes inv: "packet_queue_inv q"
  shows
    "abort_request q \<noteq> 0 \<Longrightarrow> packet_queue_get q block env = Some ((- 1, NoOutput), q)"
    "abort_request q = 0 \<Longrightarrow> queue_packets q = e # es \<Longrightarrow>
       \<exists>q'. packet_queue_get q block env =
               Some ((1, GotPacket (pkt e) (MyAVPacketList.serial e)), q') \<and>
             queue_packets q' = es \<and> packet_queue_inv q' \<and>
             nb_packets q' = nb_packets q - 1 \<and>
             PacketQueue.size q' =
               PacketQueue.size q - (AVPacket.size (pkt e) + sizeof_MyAVPacketList) \<and>
             PacketQueue.duration q' = PacketQueue.duration q - AVPacket.duration (pkt e) \<and>
             PacketQueue.serial q' = PacketQueue.serial q \<and> abort_request q' = 0"
    "abort_request q = 0 \<Longrightarrow> queue_packets q = [] \<Longrightarrow> block = 0 \<Longrightarrow>
       packet_queue_get q block env = Some ((0, NoOutput), q)"
    "abort_request q = 0 \<Longrightarrow> queue_packets q = [] \<Longrightarrow> block \<noteq> 0 \<Longrightarrow>
       packet_queue_get q block [] = None \<and>
       packet_queue_get q block (w # ws) = packet_queue_get (w q) block ws"
proof -
  have wf: "fifo_wf (pkt_list q)" using inv by (simp add: packet_queue_inv_def)
  show "abort_request q \<noteq> 0 \<Longrightarrow> packet_queue_get q block env = Some ((- 1, NoOutput), q)"
    by (simp add: packet_queue_get_returns packet_queue_get_round_cases[OF inv])
  show "abort_request q = 0 \<Longrightarrow> queue_packets q = [] \<Longrightarrow> block = 0 \<Longrightarrow>
       packet_queue_get q block env = Some ((0, NoOutput), q)"
    by (simp add: packet_queue_get_returns packet_queue_get_round_cases[OF inv])
  show "abort_request q = 0 \<Longrightarrow> queue_packets q = [] \<Longrightarrow> block \<noteq> 0 \<Longrightarrow>
       packet_queue_get q block [] = None \<and>
       packet_queue_get q block (w # ws) = packet_queue_get (w q) block ws"
    by (simp add: packet_queue_get_round_cases[OF inv])
  show "\<exists>q'. packet_queue_get q block env =
               Some ((1, GotPacket (pkt e) (MyAVPacketList.serial e)), q') \<and>
             queue_packets q' = es \<and> packet_queue_inv q' \<and>
             nb_packets q' = nb_packets q - 1 \<and>
             PacketQueue.size q' =
               PacketQueue.size q - (AVPacket.size (pkt e) + sizeof_MyAVPacketList) \<and>
             PacketQueue.duration q' = PacketQueue.duration q - AVPacket.duration (pkt e) \<and>
             PacketQueue.serial q' = PacketQueue.serial q \<and> abort_request q' = 0"
    if a: "abort_request q = 0" and c: "queue_packets q = e # es"
  proof -
    have l: "fifo_list (pkt_list q) = e # es" using c by (simp add: queue_packets_def)
    note d = av_fifo_read_nonempty(3)[OF wf l]
    note i = packet_queue_get_round_inv[OF inv, of block]
    show ?thesis using a c d i
      by (auto simp: packet_queue_get_returns packet_queue_get_round_cases[OF inv] queue_packets_def)
  qed
qed

text \<open>
  Claim C9. On a queue that satisfies the invariant of its counters:
  when the abort flag is set \<^verbatim>\<open>packet_queue_get\<close> returns -1 and the queue is unchanged;
  otherwise, when the queue holds a packet, it returns 1 with the oldest packet and the
  serial stored with that packet when it was put, and the packet count, byte size and
  duration decrease by that packet's share; otherwise, in non-blocking mode, it returns 0
  and the queue is unchanged; otherwise it waits: it has not returned while nothing
  happens, it looks at the queue again after each wake-up, it returns -1 once another
  thread aborts the queue, and it returns 1 with the packet another thread puts.
  Whatever the other threads do, a return value is -1, 0 or 1, a packet comes with 1
  and only with 1, and 0 is returned in non-blocking mode only.
\<close>

theorem packet_queue_get_kinds:
  assumes inv: "packet_queue_inv q"
  shows
    "(abort_request q \<noteq> 0 \<longrightarrow> packet_queue_get q block env = Some ((- 1, NoOutput), q)) \<and>
     (abort_request q = 0 \<longrightarrow>
        (case queue_packets q of
           e # es \<Rightarrow>
             (\<exists>q'. packet_queue_get q block env =
                     Some ((1, GotPacket (pkt e) (MyAVPacketList.serial e)), q') \<and>
                   queue_packets q' = es \<and>
                   nb_packets q' = nb_packets q - 1 \<and>
                   PacketQueue.size q' =
                     PacketQueue.size q - (AVPacket.size (pkt e) + sizeof_MyAVPacketList) \<and>
                   PacketQueue.duration q' = PacketQueue.duration q - AVPacket.duration (pkt e) \<and>
                   PacketQueue.serial q' = PacketQueue.serial q)
         | [] \<Rightarrow>
             if block = 0 then packet_queue_get q block env = Some ((0, NoOutput), q)
             else packet_queue_get q block [] = None \<and>
                  (\<forall>w ws. packet_queue_get q block (w # ws) = packet_queue_get (w q) block ws) \<and>
                  (\<forall>ws. packet_queue_get q block (packet_queue_abort # ws) =
                          Some ((- 1, NoOutput), packet_queue_abort q)) \<and>
                  (\<forall>p a mem ws. fst (packet_queue_put q p a mem) = 0 \<longrightarrow>
                     (\<exists>q'. packet_queue_get q block
                             ((\<lambda>q0. snd (packet_queue_put q0 p a mem)) # ws) =
                             Some ((1, GotPacket p (PacketQueue.serial q)), q') \<and>
                           queue_packets q' = [])))) \<and>
     (\<forall>ret out q'. packet_queue_get q block env = Some ((ret, out), q') \<longrightarrow>
        (ret = - 1 \<and> out = NoOutput) \<or> (ret = 0 \<and> out = NoOutput \<and> block = 0) \<or>
        (ret = 1 \<and> (\<exists>p s. out = GotPacket p s)))"
proof -
  note fr = packet_queue_get_first_round[OF inv]
  have a: "abort_request q \<noteq> 0 \<longrightarrow> packet_queue_get q block env = Some ((- 1, NoOutput), q)"
    using fr(1) by simp
  have c: "\<forall>ret out q'. packet_queue_get q block env = Some ((ret, out), q') \<longrightarrow>
        (ret = - 1 \<and> out = NoOutput) \<or> (ret = 0 \<and> out = NoOutput \<and> block = 0) \<or>
        (ret = 1 \<and> (\<exists>p s. out = GotPacket p s))"
    using packet_queue_get_result_kinds by blast
  have ab: "packet_queue_get q block (packet_queue_abort # ws) =
              Some ((- 1, NoOutput), packet_queue_abort q)"
    if "abort_request q = 0" "queue_packets q = []" "block \<noteq> 0" for ws
  proof -
    have i: "packet_queue_inv (packet_queue_abort q)"
      using inv by (simp add: packet_queue_abort_def packet_queue_inv_def queue_packets_def)
    have "packet_queue_get q block (packet_queue_abort # ws) =
          packet_queue_get (packet_queue_abort q) block ws"
      using fr(4)[OF that] by simp
    also have "\<dots> = Some ((- 1, NoOutput), packet_queue_abort q)"
      by (rule packet_queue_get_first_round(1)[OF i]) (simp add: packet_queue_abort_def)
    finally show ?thesis .
  qed
  have pt: "\<exists>q'. packet_queue_get q block ((\<lambda>q0. snd (packet_queue_put q0 p a mem)) # ws) =
                   Some ((1, GotPacket p (PacketQueue.serial q)), q') \<and> queue_packets q' = []"
    if e: "abort_request q = 0" "queue_packets q = []" "block \<noteq> 0"
      and ok: "fst (packet_queue_put q p a mem) = 0" for p a mem ws
  proof -
    obtain ret q1 where r: "packet_queue_put_private q p mem = (ret, q1)" by fastforce
    have "a" using ok by (auto simp: packet_queue_put_def split: if_splits)
    then have p1: "packet_queue_put q p a mem = (ret, q1)" using r by (simp add: packet_queue_put_def)
    then have "ret = 0" using ok by simp
    with packet_queue_put_private_inv[OF inv r] e have
      i1: "packet_queue_inv q1" and l1: "queue_packets q1 = [\<lparr>pkt = p, serial = PacketQueue.serial q\<rparr>]"
      and a1: "abort_request q1 = 0"
      by auto
    have "packet_queue_get q block ((\<lambda>q0. snd (packet_queue_put q0 p a mem)) # ws) =
          packet_queue_get q1 block ws"
      using fr(4)[OF e] p1 by simp
    with packet_queue_get_first_round(2)[OF i1 a1 l1, of block ws] show ?thesis by auto
  qed
  have b: "abort_request q = 0 \<longrightarrow>
        (case queue_packets q of
           e # es \<Rightarrow>
             (\<exists>q'. packet_queue_get q block env =
                     Some ((1, GotPacket (pkt e) (MyAVPacketList.serial e)), q') \<and>
                   queue_packets q' = es \<and>
                   nb_packets q' = nb_packets q - 1 \<and>
                   PacketQueue.size q' =
                     PacketQueue.size q - (AVPacket.size (pkt e) + sizeof_MyAVPacketList) \<and>
                   PacketQueue.duration q' = PacketQueue.duration q - AVPacket.duration (pkt e) \<and>
                   PacketQueue.serial q' = PacketQueue.serial q)
         | [] \<Rightarrow>
             if block = 0 then packet_queue_get q block env = Some ((0, NoOutput), q)
             else packet_queue_get q block [] = None \<and>
                  (\<forall>w ws. packet_queue_get q block (w # ws) = packet_queue_get (w q) block ws) \<and>
                  (\<forall>ws. packet_queue_get q block (packet_queue_abort # ws) =
                          Some ((- 1, NoOutput), packet_queue_abort q)) \<and>
                  (\<forall>p a mem ws. fst (packet_queue_put q p a mem) = 0 \<longrightarrow>
                     (\<exists>q'. packet_queue_get q block
                             ((\<lambda>q0. snd (packet_queue_put q0 p a mem)) # ws) =
                             Some ((1, GotPacket p (PacketQueue.serial q)), q') \<and>
                           queue_packets q' = [])))"
  proof (cases "queue_packets q")
    case Nil
    then show ?thesis using fr(3)[of block env] fr(4)[of block] ab pt
      by (cases "block = 0") auto
  next
    case (Cons e es)
    then show ?thesis using fr(2)[of e es block env] by auto
  qed
  show ?thesis using a b c by blast
qed

theorem packet_queue_get_kinds_witness:
  "(\<exists>q'. packet_queue_get one_packet_queue 1 [] =
           Some ((1, GotPacket (a_packet 7 100 40) 1), q') \<and> queue_packets q' = [] \<and>
         nb_packets q' = 0) \<and>
   packet_queue_get (packet_queue_abort one_packet_queue) 1 [] =
     Some ((- 1, NoOutput), packet_queue_abort one_packet_queue) \<and>
   packet_queue_get started_queue 0 [] = Some ((0, NoOutput), started_queue) \<and>
   packet_queue_get started_queue 1 [] = None \<and>
   packet_queue_get started_queue 1 [packet_queue_abort] =
     Some ((- 1, NoOutput), packet_queue_abort started_queue) \<and>
   (\<exists>q'. packet_queue_get started_queue 1
           [\<lambda>q. q, \<lambda>q. snd (packet_queue_put q (a_packet 7 100 40) True (Some fresh_cells))] =
           Some ((1, GotPacket (a_packet 7 100 40) 1), q') \<and> queue_packets q' = []) \<and>
   PacketQueue.serial (packet_queue_start one_packet_queue) = 2 \<and>
   (\<exists>q'. packet_queue_get (packet_queue_start one_packet_queue) 1 [] =
           Some ((1, GotPacket (a_packet 7 100 40) 1), q'))"
proof -
  note i1 = one_packet_queue_fields(3)
  have i0: "packet_queue_inv started_queue"
    by (rule packet_queue_reachable_inv[OF started_queue_reachable])
  have ia: "packet_queue_inv (packet_queue_abort one_packet_queue)"
    by (rule packet_queue_reachable_inv[OF packet_queue_reachable.abort[OF one_packet_queue_reachable]])
  have ist: "packet_queue_inv (packet_queue_start one_packet_queue)"
    by (rule packet_queue_reachable_inv[OF packet_queue_reachable.start[OF one_packet_queue_reachable]])
  have k1: "\<exists>q'. packet_queue_get one_packet_queue 1 [] =
           Some ((1, GotPacket (a_packet 7 100 40) 1), q') \<and> queue_packets q' = [] \<and>
         nb_packets q' = 0"
    using packet_queue_get_kinds [OF i1, of 1 "[]"] one_packet_queue_nb
    by (auto simp: one_packet_queue_fields simp del: packet_queue_get.simps)
  have k2: "packet_queue_get (packet_queue_abort one_packet_queue) 1 [] =
     Some ((- 1, NoOutput), packet_queue_abort one_packet_queue)"
    using packet_queue_get_kinds [OF ia, of 1 "[]"]
    by (simp add: packet_queue_abort_def del: packet_queue_get.simps)
  have k3: "packet_queue_get started_queue 0 [] = Some ((0, NoOutput), started_queue)"
    using packet_queue_get_kinds [OF i0, of 0 "[]"]
    by (simp add: started_queue_fields started_queue_packets del: packet_queue_get.simps)
  have K: "packet_queue_get started_queue 1 [] = None \<and>
      (\<forall>w ws. packet_queue_get started_queue 1 (w # ws) =
              packet_queue_get (w started_queue) 1 ws) \<and>
      (\<forall>ws. packet_queue_get started_queue 1 (packet_queue_abort # ws) =
              Some ((- 1, NoOutput), packet_queue_abort started_queue)) \<and>
      (\<forall>p a mem ws. fst (packet_queue_put started_queue p a mem) = 0 \<longrightarrow>
         (\<exists>q'. packet_queue_get started_queue 1
               ((\<lambda>q0. snd (packet_queue_put q0 p a mem)) # ws) =
               Some ((1, GotPacket p (PacketQueue.serial started_queue)), q') \<and>
             queue_packets q' = []))"
    using packet_queue_get_kinds [OF i0, of 1 "[]",
        unfolded started_queue_fields(5) started_queue_packets list.case,
        simplified simp_thms if_False one_neq_zero]
    by blast
  have k4a: "packet_queue_get started_queue 1 [] = None"
    and B: "\<forall>w ws. packet_queue_get started_queue 1 (w # ws) =
              packet_queue_get (w started_queue) 1 ws"
    and k4b: "packet_queue_get started_queue 1 [packet_queue_abort] =
       Some ((- 1, NoOutput), packet_queue_abort started_queue)"
    and D: "\<forall>p a mem ws. fst (packet_queue_put started_queue p a mem) = 0 \<longrightarrow>
       (\<exists>q'. packet_queue_get started_queue 1
               ((\<lambda>q0. snd (packet_queue_put q0 p a mem)) # ws) =
               Some ((1, GotPacket p (PacketQueue.serial started_queue)), q') \<and>
             queue_packets q' = [])"
    using K by blast+
  have k4c: "\<exists>q'. packet_queue_get started_queue 1
           [\<lambda>q. q, \<lambda>q. snd (packet_queue_put q (a_packet 7 100 40) True (Some fresh_cells))] =
           Some ((1, GotPacket (a_packet 7 100 40) 1), q') \<and> queue_packets q' = []"
    using D [rule_format, of "a_packet 7 100 40" True "Some fresh_cells" "[]"]
      B [rule_format, of "\<lambda>q. q"] one_packet_queue_put
    by (simp add: started_queue_fields del: packet_queue_get.simps)
  have k4: "packet_queue_get started_queue 1 [] = None \<and>
     packet_queue_get started_queue 1 [packet_queue_abort] =
       Some ((- 1, NoOutput), packet_queue_abort started_queue) \<and>
     (\<exists>q'. packet_queue_get started_queue 1
           [\<lambda>q. q, \<lambda>q. snd (packet_queue_put q (a_packet 7 100 40) True (Some fresh_cells))] =
           Some ((1, GotPacket (a_packet 7 100 40) 1), q') \<and> queue_packets q' = [])"
    using k4a k4b k4c by blast
  have k5: "PacketQueue.serial (packet_queue_start one_packet_queue) = 2 \<and>
     (\<exists>q'. packet_queue_get (packet_queue_start one_packet_queue) 1 [] =
           Some ((1, GotPacket (a_packet 7 100 40) 1), q'))"
    using packet_queue_get_kinds [OF ist, of 1 "[]"]
    by (auto simp: packet_queue_start_fields one_packet_queue_fields
        simp del: packet_queue_get.simps)
  show ?thesis using k1 k2 k3 k4 k5 by blast
qed

section \<open>The frame queue\<close>

lemma frame_queue_init_wf:
  "frame_queue_init q msize klast sdl_ok alloc_ok = Inr f \<Longrightarrow> 0 < msize \<Longrightarrow>
   frame_queue_wf f \<and> rindex_shown f = 0 \<and> FrameQueue.size f = 0"
  by (auto simp: frame_queue_init_def frame_queue_wf_def Let_def FFMIN_def FRAME_QUEUE_SIZE_def
      split: if_splits)

lemma frame_queue_push_wf: "frame_queue_wf f \<Longrightarrow> frame_queue_wf (frame_queue_push f)"
  by (auto simp: frame_queue_push_def frame_queue_wf_def Let_def)

lemma frame_queue_next_wf: "frame_queue_wf f \<Longrightarrow> frame_queue_wf (frame_queue_next f)"
  by (auto simp: frame_queue_next_def frame_queue_wf_def Let_def)

lemma video_frames_wf: "frame_queue_wf video_frames"
  by (simp add: video_frames_def frame_queue_wf_def FRAME_QUEUE_SIZE_def)

text \<open>
  Claim C8. In a well-formed frame queue (every queue \<^verbatim>\<open>frame_queue_init\<close> builds is
  well formed, and \<^verbatim>\<open>frame_queue_push\<close> and \<^verbatim>\<open>frame_queue_next\<close> keep it so),
  \<^verbatim>\<open>frame_queue_next\<close> with \<open>keep_last\<close> set and \<open>rindex_shown = 0\<close> only sets
  \<open>rindex_shown\<close> to 1; in every other state it releases the frame at \<open>rindex\<close>,
  increments \<open>rindex\<close> modulo \<open>max_size\<close> and decrements \<open>size\<close>, and changes
  nothing else. \<^verbatim>\<open>frame_queue_nb_remaining\<close> is \<open>size - rindex_shown\<close>, and
  \<open>rindex_shown\<close> is 0 or 1 before and after.
\<close>

theorem frame_queue_next_cases:
  assumes "frame_queue_wf f"
  shows "frame_queue_next f =
           (if keep_last f \<noteq> 0 \<and> rindex_shown f = 0 then f\<lparr>rindex_shown := 1\<rparr>
            else f\<lparr>queue := (queue f)[nat (rindex f) :=
                              (queue f ! nat (rindex f))\<lparr>frame := None, sub := None\<rparr>],
                   rindex := (rindex f + 1) mod max_size f,
                   FrameQueue.size := FrameQueue.size f - 1\<rparr>) \<and>
         frame_queue_nb_remaining f = FrameQueue.size f - rindex_shown f \<and>
         frame_queue_nb_remaining (frame_queue_next f) = frame_queue_nb_remaining f - 1 \<and>
         (rindex_shown f = 0 \<or> rindex_shown f = 1) \<and>
         (rindex_shown (frame_queue_next f) = 0 \<or> rindex_shown (frame_queue_next f) = 1) \<and>
         frame_queue_wf (frame_queue_next f)"
proof -
  have m: "(rindex f + 1) mod max_size f = (if rindex f + 1 = max_size f then 0 else rindex f + 1)"
    using assms by (auto simp: frame_queue_wf_def)
  show ?thesis
    using assms frame_queue_next_wf[OF assms]
    by (auto simp: frame_queue_next_def Let_def frame_queue_unref_item_def m
        frame_queue_nb_remaining_def frame_queue_wf_def)
qed

theorem frame_queue_next_cases_witness:
  "frame_queue_next video_frames = video_frames\<lparr>rindex_shown := 1\<rparr> \<and>
   frame_queue_next (frame_queue_next video_frames) =
     video_frames\<lparr>queue := (a_frame 1 1 0.04)\<lparr>frame := None\<rparr> # a_frame 1.04 1 0.04
                     # replicate 14 (a_frame 0 0 0),
       rindex := 1, FrameQueue.size := 1, rindex_shown := 1\<rparr> \<and>
   frame_queue_nb_remaining video_frames = 2 \<and>
   frame_queue_nb_remaining (frame_queue_next video_frames) = 1 \<and>
   frame_queue_nb_remaining (frame_queue_next (frame_queue_next video_frames)) = 0 \<and>
   rindex (frame_queue_next (video_frames\<lparr>rindex := 2, rindex_shown := 1\<rparr>)) = 0"
proof -
  have w1: "frame_queue_wf (frame_queue_next video_frames)"
    by (rule frame_queue_next_wf[OF video_frames_wf])
  have w2: "frame_queue_wf (video_frames\<lparr>rindex := 2, rindex_shown := 1\<rparr>)"
    by (simp add: video_frames_def frame_queue_wf_def FRAME_QUEUE_SIZE_def)
  have n1: "frame_queue_next video_frames = video_frames\<lparr>rindex_shown := 1\<rparr>"
    using frame_queue_next_cases [OF video_frames_wf] by (simp add: video_frames_def)
  show ?thesis
    using frame_queue_next_cases [OF video_frames_wf] frame_queue_next_cases [OF w1]
      frame_queue_next_cases [OF w2]
    by (simp add: n1) (simp add: video_frames_def a_frame_def frame_queue_nb_remaining_def)
qed

section \<open>Early frame drop\<close>




section \<open>Audio synchronisation\<close>






section \<open>Backpressure of the reader\<close>

lemma audio_only_fields:
  "audio_st (audio_only_state n) = Some a_stream"
  "video_st (audio_only_state n) = None"
  "subtitle_st (audio_only_state n) = None"
  "audio_stream (audio_only_state n) = 1"
  "video_stream (audio_only_state n) = - 1"
  "subtitle_stream (audio_only_state n) = - 1"
  "videoq (audio_only_state n) = started_queue"
  "subtitleq (audio_only_state n) = started_queue"
  "0 \<le> n \<Longrightarrow> nb_packets (audioq (audio_only_state n)) = n"
  "0 \<le> n \<Longrightarrow> PacketQueue.size (audioq (audio_only_state n)) = n * 116"
  "0 \<le> n \<Longrightarrow> PacketQueue.duration (audioq (audio_only_state n)) = n * 80"
  "abort_request (audioq (audio_only_state n)) = 0"
  by (simp_all add: audio_only_state_def player_state_def queue_of_fields sum_list_replicate
      a_packet_def sizeof_MyAVPacketList_def)

text \<open>
  Claim C3, as the code has it. The reader waits 10 ms instead of reading a packet
  exactly when \<open>infinite_buffer < 1\<close> and either the byte sizes of the three queues sum
  to more than 15 MiB or each of the three streams has enough packets. A stream has
  enough when its index is negative, its queue is aborted, it is an attached picture, or
  its queue holds more than 25 packets (25 are not enough) and the duration of the queue
  is either 0 or more than 1 second in the stream's time base.
\<close>

theorem read_thread_backpressure_cases:
  "(read_thread_backpressure infinite_buffer is = Wait_10ms_and_continue \<longleftrightarrow>
      infinite_buffer < 1 \<and>
      (PacketQueue.size (audioq is) + PacketQueue.size (videoq is) +
         PacketQueue.size (subtitleq is) > 15 * 1024 * 1024 \<or>
       (stream_has_enough_packets (audio_st is) (audio_stream is) (audioq is) \<and>
        stream_has_enough_packets (video_st is) (video_stream is) (videoq is) \<and>
        stream_has_enough_packets (subtitle_st is) (subtitle_stream is) (subtitleq is)))) \<and>
   (read_thread_backpressure infinite_buffer is = Go_on_reading \<longleftrightarrow>
      read_thread_backpressure infinite_buffer is \<noteq> Wait_10ms_and_continue) \<and>
   (stream_has_enough_packets (Some \<lparr>time_base = \<lparr>num = n, den = d\<rparr>, disposition = disp\<rparr>) stream_id q \<longleftrightarrow>
      stream_id < 0 \<or> abort_request q \<noteq> 0 \<or> (disp AND 1024) \<noteq> 0 \<or>
      nb_packets q > 25 \<and>
      (PacketQueue.duration q = 0 \<or>
       d \<noteq> 0 \<and> real_of_int n / real_of_int d * real_of_int (PacketQueue.duration q) > 1))"
  by (auto simp: read_thread_backpressure_def stream_has_enough_packets_def MAX_QUEUE_SIZE_def
      MIN_FRAMES_def AV_DISPOSITION_ATTACHED_PIC_def av_q2d_def int_to_double_def)

theorem read_thread_backpressure_cases_witness:
  "read_thread_backpressure (- 1) (audio_only_state 26) = Wait_10ms_and_continue \<and>
   read_thread_backpressure 1 (audio_only_state 26) = Go_on_reading \<and>
   read_thread_backpressure (- 1) (audio_only_state 25) = Go_on_reading"
  using read_thread_backpressure_cases [of "- 1" "audio_only_state 26" 1 1000 0 1 "audioq (audio_only_state 26)"]
    read_thread_backpressure_cases [of 1 "audio_only_state 26"]
    read_thread_backpressure_cases [of "- 1" "audio_only_state 25" 1 1000 0 1 "audioq (audio_only_state 25)"]
  by (simp add: audio_only_fields a_stream_def started_queue_def stream_has_enough_packets_def)

text \<open>
  The claim C3 as it is written fails: with audio alone and 25 audio packets of 2 seconds
  in all, the test of the claim (at least 25 packets and at least 1 second) says the
  reader waits, and the code goes on reading.
\<close>

theorem claimed_reader_blocks_counterexample:
  "packet_queue_inv (audioq (audio_only_state 25)) \<and>
   nb_packets (audioq (audio_only_state 25)) = 25 \<and>
   av_q2d (time_base a_stream) * int_to_double (PacketQueue.duration (audioq (audio_only_state 25))) = Dbl 2 \<and>
   claimed_reader_blocks (- 1) (audio_only_state 25) \<and>
   read_thread_backpressure (- 1) (audio_only_state 25) = Go_on_reading"
  using queue_of_inv[of "replicate 25 \<lparr>pkt = a_packet 0 100 80, serial = 1\<rparr>" 1]
  apply (simp add: audio_only_fields claimed_reader_blocks_def claimed_enough_def read_thread_backpressure_def
      stream_has_enough_packets_def a_stream_def av_q2d_def int_to_double_def started_queue_def
      MIN_FRAMES_def MAX_QUEUE_SIZE_def AV_DISPOSITION_ATTACHED_PIC_def)
  apply (simp add: audio_only_state_def)
  done

end
